theory Spec2Isabelle
  imports Complex_Main "HOL-Library.Word" "HOL-Library.Signed_Division"
begin

section \<open>Shared value types\<close>

text \<open>
  Go's \<open>float64\<close> coordinates and scores are modelled as exact reals: every
  arithmetic step below is the real-number one, and the places where IEEE
  arithmetic has a value the reals lack (a division by zero giving NaN) are
  written out as branches. Go's \<open>int64\<close> fields are 64-bit words. Go's \<open>int\<close>
  (raster sizes, counters) is a 64-bit integer, modelled as an \<open>int\<close> that holds
  an \<open>int64\<close> value; where the code's arithmetic can leave that range, or a
  size is too large for the runtime, the wrap-around and the panic are written
  out (\<open>int64_wrap\<close>, \<open>mul3NonNeg\<close>, \<open>makeslice_panics\<close>).
\<close>

type_synonym int64 = "64 word"

definition int64_wrap :: "int \<Rightarrow> int" where
  "int64_wrap a = (a + 2 ^ 63) mod 2 ^ 64 - 2 ^ 63"

text \<open>
  Modelled on the Go runtime for 64-bit Linux: \<open>make\<close> of a slice of \<open>len\<close>
  elements of \<open>elemSize\<close> bytes panics when \<open>len\<close> is negative or the slice needs
  more than \<open>maxAlloc\<close> bytes. A slice that the runtime accepts is taken to be
  allocated: a machine that runs out of memory first ends the process, which is
  outside this model.
\<close>

definition maxAlloc :: int where
  "maxAlloc = 2 ^ 48"

definition makeslice_panics :: "int \<Rightarrow> int \<Rightarrow> bool" where
  "makeslice_panics elemSize len = (len < 0 \<or> elemSize * len > maxAlloc)"

text \<open>\<open>ws.Point\<close>, \<open>db.StrokePoint\<close> and \<open>recognize.Point\<close> are the same struct.\<close>

record Point =
  X :: real
  Y :: real

section \<open>Package ws: the hub and the session loop\<close>

subsection \<open>Wire messages\<close>

record ws_Stroke =
  ID :: int64
  Points :: "Point list"
  Color :: string
  Width :: int
  ClientID :: string
  StartedAtUnixMs :: int64

text \<open>The pointer fields \<open>*Stroke\<close> and \<open>*int64\<close> are options: \<open>None\<close> is \<open>nil\<close>.\<close>

record message =
  Type :: string
  Stroke :: "ws_Stroke option"
  Delete :: "int64 option"

subsection \<open>The world the hub acts on\<close>

text \<open>
  A connection is known by its pointer. \<open>clients\<close> holds the keys of the map
  \<open>Hub.clients\<close> in the order in which \<open>range\<close> visits them (Go leaves that order
  open, so nothing below depends on it). The other fields record the calls made
  on the collaborators: \<open>closed\<close> the connections on which \<open>Close\<close> was called,
  \<open>written\<close> the frames that \<open>WriteMessage\<close> accepted, \<open>save_calls\<close> and
  \<open>delete_calls\<close> the arguments of every \<open>Store.SaveStroke\<close> and
  \<open>Store.DeleteStroke\<close> call, \<open>broadcast_calls\<close> the argument of every
  \<open>Hub.broadcast\<close> call.
\<close>

type_synonym conn = nat

type_synonym save_args = "int64 \<times> string \<times> int \<times> int64 \<times> Point list"

record world =
  clients :: "conn list"
  closed :: "conn list"
  written :: "(conn \<times> string) list"
  save_calls :: "save_args list"
  delete_calls :: "(int64 \<times> int64) list"
  broadcast_calls :: "message list"

text \<open>
  What the collaborators answer while one message is handled: the clock
  (\<open>time.Now().UnixMilli()\<close>), the identity lookup \<open>Auth.UserIDFromRequest\<close>,
  the store (\<open>Inl\<close> is the returned error), \<open>json.Marshal\<close> (\<open>None\<close> is an error)
  and, for each connection, whether \<open>WriteMessage\<close> returns \<open>nil\<close>.
\<close>

record env =
  now :: int64
  UserIDFromRequest :: "int64 \<times> bool"
  SaveStroke :: "save_args \<Rightarrow> string + int64"
  DeleteStroke :: "int64 \<times> int64 \<Rightarrow> string option"
  Marshal :: "message \<Rightarrow> string option"
  WriteMessage :: "conn \<Rightarrow> string \<Rightarrow> bool"

subsection \<open>Hub.add, Hub.remove, Hub.broadcast\<close>

definition add :: "conn \<Rightarrow> world \<Rightarrow> world" where
  "add c w = (if c \<in> set (clients w) then w else w\<lparr>clients := clients w @ [c]\<rparr>)"

definition remove :: "conn \<Rightarrow> world \<Rightarrow> world" where
  "remove c w = w\<lparr>clients := removeAll c (clients w)\<rparr>"

text \<open>
  The body of \<open>for c := range h.clients\<close>, run under the hub's lock. A failed
  write closes the connection and deletes the key being visited; Go's \<open>range\<close>
  still visits every other key once. Logging is left out.
\<close>

fun send_all :: "(conn \<Rightarrow> string \<Rightarrow> bool) \<Rightarrow> string \<Rightarrow> conn list \<Rightarrow> world \<Rightarrow> world" where
  "send_all wr b [] w = w"
| "send_all wr b (c # cs) w =
     send_all wr b cs
       (if wr c b then w\<lparr>written := written w @ [(c, b)]\<rparr>
        else w\<lparr>closed := closed w @ [c], clients := removeAll c (clients w)\<rparr>)"

definition broadcast :: "env \<Rightarrow> message \<Rightarrow> world \<Rightarrow> world" where
  "broadcast e v w =
     (let w1 = w\<lparr>broadcast_calls := broadcast_calls w @ [v]\<rparr> in
      case Marshal e v of
        None \<Rightarrow> w1
      | Some b \<Rightarrow> send_all (WriteMessage e) b (clients w1) w1)"

subsection \<open>One turn of the receive loop of Handle\<close>

text \<open>
  \<open>handle_message\<close> is the \<open>switch m.Type\<close> of \<open>Handle\<close>, run on a message that
  \<open>json.Unmarshal\<close> has decoded. \<open>continue\<close> leaves the world as it is.
\<close>

definition handle_message :: "env \<Rightarrow> message \<Rightarrow> world \<Rightarrow> world" where
  "handle_message e m w =
     (if Type m = ''stroke'' then
        (case Stroke m of
           None \<Rightarrow> w
         | Some s0 \<Rightarrow>
             let s = (if StartedAtUnixMs s0 = 0 then s0\<lparr>StartedAtUnixMs := now e\<rparr> else s0);
                 (uid, ok) = UserIDFromRequest e
             in if ok then
                  let pts = map (\<lambda>p. \<lparr>X = X p, Y = Y p\<rparr>) (Points s);
                      args = (uid, Color s, Width s, StartedAtUnixMs s, pts);
                      w1 = w\<lparr>save_calls := save_calls w @ [args]\<rparr>
                  in (case SaveStroke e args of
                        Inl err \<Rightarrow> broadcast e (m\<lparr>Stroke := Some s\<rparr>) w1
                      | Inr i \<Rightarrow> broadcast e (m\<lparr>Stroke := Some (s\<lparr>ID := i\<rparr>)\<rparr>) w1)
                else broadcast e (m\<lparr>Stroke := Some s\<rparr>) w)
      else if Type m = ''delete'' then
        (case Delete m of
           None \<Rightarrow> w
         | Some d \<Rightarrow>
             let (uid, ok) = UserIDFromRequest e;
                 w1 = (if ok then w\<lparr>delete_calls := delete_calls w @ [(uid, d)]\<rparr> else w)
             in broadcast e m w1)
      else w)"

subsection \<open>A sample run\<close>

text \<open>
  Three registered connections, of which connection 2 refuses every write; a
  signed-in user 7; a store that assigns id 42; a stroke without points and
  without a timestamp.
\<close>

definition sample_env :: env where
  "sample_env = \<lparr>now = 1700000000000, UserIDFromRequest = (7, True),
     SaveStroke = (\<lambda>a. Inr 42), DeleteStroke = (\<lambda>a. None),
     Marshal = (\<lambda>m. Some (Type m)), WriteMessage = (\<lambda>c b. c \<noteq> 2)\<rparr>"

definition sample_world :: world where
  "sample_world = \<lparr>clients = [1, 2, 3], closed = [], written = [],
     save_calls = [], delete_calls = [], broadcast_calls = []\<rparr>"

definition sample_stroke :: ws_Stroke where
  "sample_stroke = \<lparr>ID = 0, Points = [], Color = ''#1d4ed8'', Width = 4,
     ClientID = ''abc123'', StartedAtUnixMs = 0\<rparr>"

definition sample_msg :: message where
  "sample_msg = \<lparr>Type = ''stroke'', Stroke = Some sample_stroke, Delete = None\<rparr>"

section \<open>Package recognize\<close>

subsection \<open>Types\<close>

record Stroke =
  Points :: "Point list"

record Candidate =
  Text :: string
  Score :: real

text \<open>
  The receiver of the ONNX-named recognizer; its \<open>session\<close> field is always
  \<open>nil\<close>. \<open>SimpleRecognizer\<close> is an empty struct.
\<close>

record ONNXRecognizer =
  modelPath :: string
  inputName :: string
  outputName :: string
  inputShape :: "int64 list"

type_synonym SimpleRecognizer = unit

text \<open>
  A run-time panic (a slice made with a negative length, an index or a slice
  bound out of range) ends the call; it is the only failure of this package.
\<close>

datatype error = Panic

text \<open>
  The candidate texts are UTF-8 byte strings, as in Go. Each constant is named by
  its code point.
\<close>

abbreviation U5341 :: string where "U5341 \<equiv> [CHR 0xE5, CHR 0x8D, CHR 0x81]"  \<comment> \<open>ten, the cross\<close>
abbreviation UFF0B :: string where "UFF0B \<equiv> [CHR 0xEF, CHR 0xBC, CHR 0x8B]"  \<comment> \<open>full-width plus\<close>
abbreviation U4E09 :: string where "U4E09 \<equiv> [CHR 0xE4, CHR 0xB8, CHR 0x89]"  \<comment> \<open>three\<close>
abbreviation U30DF :: string where "U30DF \<equiv> [CHR 0xE3, CHR 0x83, CHR 0x9F]"  \<comment> \<open>katakana mi\<close>
abbreviation U4E8C :: string where "U4E8C \<equiv> [CHR 0xE4, CHR 0xBA, CHR 0x8C]"  \<comment> \<open>two\<close>
abbreviation U30CB :: string where "U30CB \<equiv> [CHR 0xE3, CHR 0x83, CHR 0x8B]"  \<comment> \<open>katakana ni\<close>
abbreviation U4E00 :: string where "U4E00 \<equiv> [CHR 0xE4, CHR 0xB8, CHR 0x80]"  \<comment> \<open>one, the horizontal line\<close>
abbreviation U30FC :: string where "U30FC \<equiv> [CHR 0xE3, CHR 0x83, CHR 0xBC]"  \<comment> \<open>long vowel mark\<close>
abbreviation U4E28 :: string where "U4E28 \<equiv> [CHR 0xE4, CHR 0xB8, CHR 0xA8]"  \<comment> \<open>vertical line\<close>
abbreviation UFF5C :: string where "UFF5C \<equiv> [CHR 0xEF, CHR 0xBD, CHR 0x9C]"  \<comment> \<open>full-width vertical bar\<close>
abbreviation U4E36 :: string where "U4E36 \<equiv> [CHR 0xE4, CHR 0xB8, CHR 0xB6]"  \<comment> \<open>dot\<close>
abbreviation U3002 :: string where "U3002 \<equiv> [CHR 0xE3, CHR 0x80, CHR 0x82]"  \<comment> \<open>ideographic full stop\<close>
abbreviation U3057 :: string where "U3057 \<equiv> [CHR 0xE3, CHR 0x81, CHR 0x97]"  \<comment> \<open>hiragana shi\<close>
abbreviation U304F :: string where "U304F \<equiv> [CHR 0xE3, CHR 0x81, CHR 0x8F]"  \<comment> \<open>hiragana ku\<close>
abbreviation U4EBA :: string where "U4EBA \<equiv> [CHR 0xE4, CHR 0xBA, CHR 0xBA]"  \<comment> \<open>person\<close>
abbreviation U5165 :: string where "U5165 \<equiv> [CHR 0xE5, CHR 0x85, CHR 0xA5]"  \<comment> \<open>enter\<close>
abbreviation U5927 :: string where "U5927 \<equiv> [CHR 0xE5, CHR 0xA4, CHR 0xA7]"  \<comment> \<open>big\<close>
abbreviation U592A :: string where "U592A \<equiv> [CHR 0xE5, CHR 0xA4, CHR 0xAA]"  \<comment> \<open>fat\<close>
abbreviation U5C0F :: string where "U5C0F \<equiv> [CHR 0xE5, CHR 0xB0, CHR 0x8F]"  \<comment> \<open>small\<close>
abbreviation U5DDD :: string where "U5DDD \<equiv> [CHR 0xE5, CHR 0xB7, CHR 0x9D]"  \<comment> \<open>river\<close>
abbreviation U4E2D :: string where "U4E2D \<equiv> [CHR 0xE4, CHR 0xB8, CHR 0xAD]"  \<comment> \<open>middle\<close>
abbreviation U7530 :: string where "U7530 \<equiv> [CHR 0xE7, CHR 0x94, CHR 0xB0]"  \<comment> \<open>field\<close>
abbreviation U56FD :: string where "U56FD \<equiv> [CHR 0xE5, CHR 0x9B, CHR 0xBD]"  \<comment> \<open>country\<close>
abbreviation U5B66 :: string where "U5B66 \<equiv> [CHR 0xE5, CHR 0xAD, CHR 0xA6]"  \<comment> \<open>study\<close>
abbreviation U751F :: string where "U751F \<equiv> [CHR 0xE7, CHR 0x94, CHR 0x9F]"  \<comment> \<open>life\<close>
abbreviation U66F8 :: string where "U66F8 \<equiv> [CHR 0xE6, CHR 0x9B, CHR 0xB8]"  \<comment> \<open>write\<close>
abbreviation U5B57 :: string where "U5B57 \<equiv> [CHR 0xE5, CHR 0xAD, CHR 0x97]"  \<comment> \<open>character\<close>

subsection \<open>Floating-point values that are not real numbers\<close>

text \<open>
  A \<open>float64\<close> quotient is a real number, an infinity or NaN. Every comparison
  with NaN is false.
\<close>

datatype float64 = Fin real | PosInf | NegInf | NaN

definition fdiv :: "real \<Rightarrow> real \<Rightarrow> float64" where
  "fdiv a b = (if b \<noteq> 0 then Fin (a / b)
               else if a > 0 then PosInf else if a < 0 then NegInf else NaN)"

fun fgt :: "float64 \<Rightarrow> real \<Rightarrow> bool" where
  "fgt (Fin a) c = (a > c)"
| "fgt PosInf c = True"
| "fgt NegInf c = False"
| "fgt NaN c = False"

fun fge :: "float64 \<Rightarrow> real \<Rightarrow> bool" where
  "fge (Fin a) c = (a \<ge> c)"
| "fge PosInf c = True"
| "fge NegInf c = False"
| "fge NaN c = False"

fun flt :: "float64 \<Rightarrow> real \<Rightarrow> bool" where
  "flt (Fin a) c = (a < c)"
| "flt PosInf c = False"
| "flt NegInf c = True"
| "flt NaN c = False"

text \<open>Go's conversion \<open>int(v)\<close> of a \<open>float64\<close> drops the fraction.\<close>

definition int_of_float64 :: "real \<Rightarrow> int" where
  "int_of_float64 v = (if 0 \<le> v then \<lfloor>v\<rfloor> else \<lceil>v\<rceil>)"

subsection \<open>The standard library's gray image\<close>

text \<open>
  Modelled on Go's \<open>image.Gray\<close>: a gray value for every point of a rectangle.
  \<open>image.Rect\<close> orders its corners, \<open>SetGray\<close> ignores a point outside the
  rectangle and \<open>GrayAt\<close> answers 0 there. \<open>image.NewGray\<close> asks
  \<open>pixelBufferLength\<close> for the number of pixels, which is \<open>mul3NonNeg\<close> of the
  bytes per pixel and the two sides, and panics when that is negative: a side is
  negative or the product does not fit an \<open>int64\<close>. It then makes the slice of
  pixels.
\<close>

record Gray =
  Pix :: "int \<times> int \<Rightarrow> 8 word"
  MinX :: int
  MinY :: int
  MaxX :: int
  MaxY :: int

text \<open>The black image on \<open>image.Rect(0, 0, width, height)\<close>.\<close>

definition blank_Gray :: "int \<Rightarrow> int \<Rightarrow> Gray" where
  "blank_Gray width height =
     \<lparr>Pix = (\<lambda>p. 0), MinX = min 0 width, MinY = min 0 height,
      MaxX = max 0 width, MaxY = max 0 height\<rparr>"

text \<open>
  \<open>mul3NonNeg\<close> multiplies in 128 bits: it answers -1 when an argument is
  negative, when the high word of either product is not 0, or when the low word
  read as an \<open>int64\<close> is negative.
\<close>

definition mul3NonNeg :: "int \<Rightarrow> int \<Rightarrow> int \<Rightarrow> int" where
  "mul3NonNeg x y z =
     (if x < 0 \<or> y < 0 \<or> z < 0 then - 1
      else if x * y \<ge> 2 ^ 64 then - 1
      else if x * y * z \<ge> 2 ^ 64 then - 1
      else if x * y * z \<ge> 2 ^ 63 then - 1
      else x * y * z)"

definition NewGray :: "int \<Rightarrow> int \<Rightarrow> error + Gray" where
  "NewGray width height =
     (let img = blank_Gray width height;
          totalLength = mul3NonNeg 1 (int64_wrap (MaxX img - MinX img))
                          (int64_wrap (MaxY img - MinY img))
      in if totalLength < 0 \<or> makeslice_panics 1 totalLength then Inl Panic
         else Inr img)"

definition In :: "int \<Rightarrow> int \<Rightarrow> Gray \<Rightarrow> bool" where
  "In x y img = (MinX img \<le> x \<and> x < MaxX img \<and> MinY img \<le> y \<and> y < MaxY img)"

definition SetGray :: "Gray \<Rightarrow> int \<Rightarrow> int \<Rightarrow> 8 word \<Rightarrow> Gray" where
  "SetGray img x y c = (if In x y img then img\<lparr>Pix := (Pix img)((x, y) := c)\<rparr> else img)"

definition GrayAt :: "Gray \<Rightarrow> int \<Rightarrow> int \<Rightarrow> 8 word" where
  "GrayAt img x y = (if In x y img then Pix img (x, y) else 0)"

subsection \<open>ONNXRecognizer.strokesToTensor\<close>

text \<open>The 3x3 block of white pixels around \<open>(x, y)\<close>, clipped to the raster.\<close>

definition stamp :: "int \<Rightarrow> int \<Rightarrow> int \<Rightarrow> int \<Rightarrow> Gray \<Rightarrow> Gray" where
  "stamp width height x y img =
     foldl (\<lambda>im (dy, dx).
              let nx = x + dx; ny = y + dy in
              if nx \<ge> 0 \<and> nx < width \<and> ny \<ge> 0 \<and> ny < height
              then SetGray im nx ny 255 else im)
       img (List.product [-1, 0, 1] [-1, 0, 1])"

definition draw_points :: "int \<Rightarrow> int \<Rightarrow> Point list \<Rightarrow> Gray \<Rightarrow> Gray" where
  "draw_points width height pts img =
     foldl (\<lambda>im point. stamp width height (int_of_float64 (X point)) (int_of_float64 (Y point)) im)
       img pts"

text \<open>
  The walk from \<open>p1\<close> to \<open>p2\<close>: \<open>j\<close> runs from 0 to \<open>steps\<close> inclusive. The
  arithmetic is that of the reals: where a \<open>float64\<close> result is rounded across a
  whole number, or a coordinate lies beyond the \<open>int64\<close> range, the pixel that Go
  computes can differ from the one computed here.
\<close>

definition draw_segment :: "int \<Rightarrow> int \<Rightarrow> Point \<Rightarrow> Point \<Rightarrow> Gray \<Rightarrow> Gray" where
  "draw_segment width height p1 p2 img =
     (let x1 = X p1; y1 = Y p1; x2 = X p2; y2 = Y p2;
          dx = x2 - x1; dy = y2 - y1;
          distance = sqrt (dx * dx + dy * dy);
          steps = int_of_float64 distance + 1
      in foldl (\<lambda>im j.
                  let t = real j / real_of_int steps;
                      x = int_of_float64 (x1 + t * dx);
                      y = int_of_float64 (y1 + t * dy)
                  in stamp width height x y im)
           img [0..<Suc (nat steps)])"

definition draw_stroke :: "int \<Rightarrow> int \<Rightarrow> Stroke \<Rightarrow> Gray \<Rightarrow> Gray" where
  "draw_stroke width height stroke img =
     (let pts = Stroke.Points stroke in
      if length pts < 1 then img
      else foldl (\<lambda>im i. draw_segment width height (pts ! i) (pts ! (i + 1)) im)
             (draw_points width height pts img) [0..<length pts - 1])"

text \<open>
  The final double loop writes \<open>tensor[y*width+x]\<close> for every pixel; \<open>float32(gray.Y) / 255.0\<close>
  is 0 for black and 1 for white.
\<close>

definition to_tensor :: "Gray \<Rightarrow> int \<Rightarrow> int \<Rightarrow> real list" where
  "to_tensor img width height =
     foldl (\<lambda>tensor (y, x).
              tensor[y * nat width + x := real (unat (GrayAt img (int x) (int y))) / 255])
       (replicate (nat (width * height)) 0)
       (List.product [0..<nat height] [0..<nat width])"

text \<open>
  \<open>image.NewGray\<close> may panic; so may \<open>make([]float32, width*height)\<close>, on a
  negative length or on one whose four bytes per cell exceed what the runtime
  allocates. Once \<open>NewGray\<close> has returned, the product of the two sizes is at
  most \<open>maxAlloc\<close> in absolute value and does not wrap.
\<close>

definition strokesToTensor :: "ONNXRecognizer \<Rightarrow> Stroke list \<Rightarrow> int \<Rightarrow> int \<Rightarrow> error + real list" where
  "strokesToTensor r strokes width height =
     (case NewGray width height of
        Inl e \<Rightarrow> Inl e
      | Inr img0 \<Rightarrow>
          let img = foldl (\<lambda>im stroke. draw_stroke width height stroke im) img0 strokes
          in if makeslice_panics 4 (int64_wrap (width * height)) then Inl Panic
             else Inr (to_tensor img width height))"

subsection \<open>Scanning the grid\<close>

text \<open>
  A cell is active when \<open>tensor[y*width+x] > 0.1\<close>. The scans read the cell of every
  \<open>x < width\<close> and \<open>y < height\<close>; a read past the end of the slice panics, so each
  scanning function first asks whether all its reads are in range. The cells are
  \<open>float32\<close> in Go and reals here; the comparison with 0.1 differs between the
  two on a single \<open>float32\<close> value, the one nearest to 0.1, which no rasterized
  grid holds (its cells are 0 or 1).
\<close>

definition active :: "real list \<Rightarrow> int \<Rightarrow> nat \<Rightarrow> nat \<Rightarrow> bool" where
  "active tensor width x y = (tensor ! (y * nat width + x) > 0.1)"

definition reads_in_range :: "real list \<Rightarrow> int \<Rightarrow> int \<Rightarrow> bool" where
  "reads_in_range tensor width height =
     (\<forall>y \<in> set [0..<nat height]. \<forall>x \<in> set [0..<nat width]. y * nat width + x < length tensor)"

text \<open>
  The inner loop shared by the line detectors: \<open>lineLength\<close> counts the run being
  read, \<open>maxLineLength\<close> keeps the longest run that has ended; after the loop the
  last run is compared once more.
\<close>

definition scan_step :: "int \<times> int \<Rightarrow> bool \<Rightarrow> int \<times> int" where
  "scan_step s a =
     (case s of (lineLength, maxLineLength) \<Rightarrow>
        if a then (lineLength + 1, maxLineLength)
        else (0, if lineLength > maxLineLength then lineLength else maxLineLength))"

definition max_run :: "bool list \<Rightarrow> int" where
  "max_run cells =
     (case foldl scan_step (0, 0) cells of (lineLength, maxLineLength) \<Rightarrow>
        if lineLength > maxLineLength then lineLength else maxLineLength)"

definition row_cells :: "real list \<Rightarrow> int \<Rightarrow> nat \<Rightarrow> bool list" where
  "row_cells tensor width y = map (\<lambda>x. active tensor width x y) [0..<nat width]"

definition col_cells :: "real list \<Rightarrow> int \<Rightarrow> int \<Rightarrow> nat \<Rightarrow> bool list" where
  "col_cells tensor width height x = map (\<lambda>y. active tensor width x y) [0..<nat height]"

text \<open>Counting the groups of consecutive qualifying rows (or columns).\<close>

definition group_step :: "int \<times> bool \<Rightarrow> bool \<Rightarrow> int \<times> bool" where
  "group_step s isLine =
     (case s of (lines, inLine) \<Rightarrow>
        if isLine \<and> \<not> inLine then (lines + 1, True)
        else if \<not> isLine then (lines, False)
        else (lines, inLine))"

definition count_groups :: "bool list \<Rightarrow> int" where
  "count_groups lineRows = fst (foldl group_step (0, False) lineRows)"

text \<open>
  \<open>make([]bool, height)\<close> in \<open>detectHorizontalLines\<close> and \<open>make([]bool, width)\<close> in
  \<open>detectVerticalLines\<close> panic on a negative length and on one beyond what the
  runtime allocates.
\<close>

definition detectHorizontalLines :: "ONNXRecognizer \<Rightarrow> real list \<Rightarrow> int \<Rightarrow> int \<Rightarrow> error + int" where
  "detectHorizontalLines r tensor width height =
     (let minLineLength = width sdiv 10 in
      if makeslice_panics 1 height \<or> \<not> reads_in_range tensor width height then Inl Panic
      else Inr (count_groups
                  (map (\<lambda>y. max_run (row_cells tensor width y) \<ge> minLineLength)
                     [0..<nat height])))"

definition detectVerticalLines :: "ONNXRecognizer \<Rightarrow> real list \<Rightarrow> int \<Rightarrow> int \<Rightarrow> error + int" where
  "detectVerticalLines r tensor width height =
     (let minLineLength = height sdiv 10 in
      if makeslice_panics 1 width \<or> \<not> reads_in_range tensor width height then Inl Panic
      else Inr (count_groups
                  (map (\<lambda>x. max_run (col_cells tensor width height x) \<ge> minLineLength)
                     [0..<nat width])))"

definition best_run :: "bool list list \<Rightarrow> int" where
  "best_run lines =
     foldl (\<lambda>best cells. let maxLineLength = max_run cells in
                          if maxLineLength > best then maxLineLength else best) 0 lines"

definition detectCross :: "ONNXRecognizer \<Rightarrow> real list \<Rightarrow> int \<Rightarrow> int \<Rightarrow> error + real" where
  "detectCross r tensor width height =
     (if \<not> reads_in_range tensor width height then Inl Panic
      else
        let bestHorizontalLength = best_run (map (row_cells tensor width) [0..<nat height]);
            bestVerticalLength = best_run (map (col_cells tensor width height) [0..<nat width])
        in if bestHorizontalLength > width sdiv 3 \<and> bestVerticalLength > height sdiv 3
           then Inr 1 else Inr 0)"

definition detectThreeHorizontal :: "ONNXRecognizer \<Rightarrow> real list \<Rightarrow> int \<Rightarrow> int \<Rightarrow> error + real" where
  "detectThreeHorizontal r tensor width height =
     (case detectHorizontalLines r tensor width height of
        Inl e \<Rightarrow> Inl e
      | Inr horizontalLines \<Rightarrow> if horizontalLines \<ge> 3 then Inr 1 else Inr 0)"

definition detectTwoHorizontal :: "ONNXRecognizer \<Rightarrow> real list \<Rightarrow> int \<Rightarrow> int \<Rightarrow> error + real" where
  "detectTwoHorizontal r tensor width height =
     (case detectHorizontalLines r tensor width height of
        Inl e \<Rightarrow> Inl e
      | Inr horizontalLines \<Rightarrow> if horizontalLines \<ge> 2 then Inr 1 else Inr 0)"

definition detectSingleHorizontal :: "ONNXRecognizer \<Rightarrow> real list \<Rightarrow> int \<Rightarrow> int \<Rightarrow> error + real" where
  "detectSingleHorizontal r tensor width height =
     (case detectHorizontalLines r tensor width height of
        Inl e \<Rightarrow> Inl e
      | Inr horizontalLines \<Rightarrow>
          (case detectVerticalLines r tensor width height of
             Inl e \<Rightarrow> Inl e
           | Inr verticalLines \<Rightarrow>
               if horizontalLines \<ge> 1 \<and> verticalLines = 0 then Inr 1 else Inr 0))"

definition detectSingleVertical :: "ONNXRecognizer \<Rightarrow> real list \<Rightarrow> int \<Rightarrow> int \<Rightarrow> error + real" where
  "detectSingleVertical r tensor width height =
     (case detectHorizontalLines r tensor width height of
        Inl e \<Rightarrow> Inl e
      | Inr horizontalLines \<Rightarrow>
          (case detectVerticalLines r tensor width height of
             Inl e \<Rightarrow> Inl e
           | Inr verticalLines \<Rightarrow>
               if verticalLines \<ge> 1 \<and> horizontalLines = 0 then Inr 1 else Inr 0))"

subsection \<open>ONNXRecognizer.analyzeTensorFeatures\<close>

text \<open>
  The feature map. A key that is absent reads as 0, as in Go. The keys
  \<open>aspect_ratio\<close>, \<open>center_offset_x\<close>, \<open>center_offset_y\<close> and \<open>diagonal_lines\<close> are
  written by the source and read by nothing but the log; their computation
  (the bounding box and \<open>detectDiagonalLines\<close>) cannot panic when the reads
  above are in range, and is left out.
\<close>

type_synonym features = "string \<rightharpoonup> float64"

definition feat :: "features \<Rightarrow> string \<Rightarrow> float64" where
  "feat fs k = (case fs k of None \<Rightarrow> Fin 0 | Some v \<Rightarrow> v)"

definition count_active :: "real list \<Rightarrow> int \<Rightarrow> int \<Rightarrow> real" where
  "count_active tensor width height =
     foldl (\<lambda>activePixels (y, x).
              if active tensor width x y then activePixels + 1 else activePixels)
       0 (List.product [0..<nat height] [0..<nat width])"

definition analyzeTensorFeatures :: "ONNXRecognizer \<Rightarrow> real list \<Rightarrow> int \<Rightarrow> int \<Rightarrow> error + features" where
  "analyzeTensorFeatures r tensor width height =
     (if \<not> reads_in_range tensor width height then Inl Panic
      else
        let totalPixels = real_of_int (width * height);
            activePixels = count_active tensor width height
        in
        case detectHorizontalLines r tensor width height of Inl e \<Rightarrow> Inl e | Inr horizontalLines \<Rightarrow>
        case detectVerticalLines r tensor width height of Inl e \<Rightarrow> Inl e | Inr verticalLines \<Rightarrow>
        case detectCross r tensor width height of Inl e \<Rightarrow> Inl e | Inr hasCross \<Rightarrow>
        case detectThreeHorizontal r tensor width height of Inl e \<Rightarrow> Inl e | Inr hasThree \<Rightarrow>
        case detectTwoHorizontal r tensor width height of Inl e \<Rightarrow> Inl e | Inr hasTwo \<Rightarrow>
        case detectSingleHorizontal r tensor width height of Inl e \<Rightarrow> Inl e | Inr hasSingleH \<Rightarrow>
        case detectSingleVertical r tensor width height of Inl e \<Rightarrow> Inl e | Inr hasSingleV \<Rightarrow>
          Inr [''density'' \<mapsto> fdiv activePixels totalPixels,
               ''horizontal_lines'' \<mapsto> Fin (real_of_int horizontalLines),
               ''vertical_lines'' \<mapsto> Fin (real_of_int verticalLines),
               ''has_cross'' \<mapsto> Fin hasCross,
               ''has_three_horizontal'' \<mapsto> Fin hasThree,
               ''has_two_horizontal'' \<mapsto> Fin hasTwo,
               ''has_single_horizontal'' \<mapsto> Fin hasSingleH,
               ''has_single_vertical'' \<mapsto> Fin hasSingleV])"

subsection \<open>ONNXRecognizer.generateCandidatesFromFeatures\<close>

text \<open>
  \<open>generated_candidates\<close> is the body of the function up to the comment
  \<open>Limit to topN results\<close>: the list \<open>candidates\<close> as the appends have built it.
\<close>

definition generated_candidates :: "features \<Rightarrow> int \<Rightarrow> Candidate list" where
  "generated_candidates fs strokeCount =
     (let candidates = [];
          candidates = (if strokeCount = 2 \<and> fgt (feat fs ''has_cross'') 0.5
                        then candidates @ [\<lparr>Text = U5341, Score = 0.95\<rparr>, \<lparr>Text = UFF0B, Score = 0.8\<rparr>] else candidates);
          candidates = (if strokeCount = 3 \<and> fgt (feat fs ''has_three_horizontal'') 0.5
                        then candidates @ [\<lparr>Text = U4E09, Score = 0.95\<rparr>, \<lparr>Text = U30DF, Score = 0.7\<rparr>] else candidates);
          candidates = (if strokeCount = 2 \<and> fgt (feat fs ''has_two_horizontal'') 0.5
                        then candidates @ [\<lparr>Text = U4E8C, Score = 0.9\<rparr>, \<lparr>Text = U30CB, Score = 0.7\<rparr>] else candidates);
          candidates = (if strokeCount = 1 \<and> fgt (feat fs ''has_single_horizontal'') 0.5
                        then candidates @ [\<lparr>Text = U4E00, Score = 0.9\<rparr>, \<lparr>Text = U30FC, Score = 0.7\<rparr>] else candidates);
          candidates = (if strokeCount = 1 \<and> fgt (feat fs ''has_single_vertical'') 0.5
                        then candidates @ [\<lparr>Text = U4E28, Score = 0.9\<rparr>, \<lparr>Text = UFF5C, Score = 0.7\<rparr>] else candidates);
          candidates =
            (if length candidates = 0 then
               (let candidates =
                      (if strokeCount = 1 then
                         (if fgt (feat fs ''horizontal_lines'') 0.5 then candidates @ [\<lparr>Text = U4E00, Score = 0.7\<rparr>, \<lparr>Text = U30FC, Score = 0.5\<rparr>]
                          else if fgt (feat fs ''vertical_lines'') 0.5 then candidates @ [\<lparr>Text = U4E28, Score = 0.7\<rparr>, \<lparr>Text = UFF5C, Score = 0.5\<rparr>]
                          else if flt (feat fs ''density'') 0.01 then candidates @ [\<lparr>Text = U4E36, Score = 0.8\<rparr>, \<lparr>Text = U3002, Score = 0.6\<rparr>]
                          else candidates @ [\<lparr>Text = U3057, Score = 0.6\<rparr>, \<lparr>Text = U304F, Score = 0.4\<rparr>])
                       else candidates);
                    candidates =
                      (if strokeCount = 2 then
                         (if fge (feat fs ''horizontal_lines'') 2 then candidates @ [\<lparr>Text = U4E8C, Score = 0.7\<rparr>, \<lparr>Text = U30CB, Score = 0.5\<rparr>]
                          else if fge (feat fs ''horizontal_lines'') 1 \<and> fge (feat fs ''vertical_lines'') 1
                          then candidates @ [\<lparr>Text = U5341, Score = 0.7\<rparr>, \<lparr>Text = UFF0B, Score = 0.5\<rparr>]
                          else candidates @ [\<lparr>Text = U4EBA, Score = 0.6\<rparr>, \<lparr>Text = U5165, Score = 0.4\<rparr>])
                       else candidates);
                    candidates =
                      (if strokeCount = 3 then
                         (if fge (feat fs ''horizontal_lines'') 3 then candidates @ [\<lparr>Text = U4E09, Score = 0.7\<rparr>, \<lparr>Text = U30DF, Score = 0.5\<rparr>]
                          else if fge (feat fs ''horizontal_lines'') 1 \<and> fge (feat fs ''vertical_lines'') 1
                          then candidates @ [\<lparr>Text = U5927, Score = 0.6\<rparr>, \<lparr>Text = U592A, Score = 0.4\<rparr>]
                          else candidates @ [\<lparr>Text = U5C0F, Score = 0.5\<rparr>, \<lparr>Text = U5DDD, Score = 0.3\<rparr>])
                       else candidates);
                    candidates =
                      (if strokeCount \<ge> 4 then
                         (let candidates =
                                (if fge (feat fs ''horizontal_lines'') 2 \<and> fge (feat fs ''vertical_lines'') 2
                                 then candidates @ [\<lparr>Text = U4E2D, Score = 0.6\<rparr>, \<lparr>Text = U7530, Score = 0.5\<rparr>] else candidates)
                          in candidates @ [\<lparr>Text = U56FD, Score = 0.5\<rparr>, \<lparr>Text = U5B66, Score = 0.4\<rparr>, \<lparr>Text = U751F, Score = 0.3\<rparr>])
                       else candidates)
                in candidates)
             else candidates);
          candidates = (if fgt (feat fs ''density'') 0.1
                        then candidates @ [\<lparr>Text = U66F8, Score = 0.3\<rparr>, \<lparr>Text = U5B57, Score = 0.2\<rparr>] else candidates);
          candidates =
            (if length candidates = 0 then
               (if strokeCount = 1 then candidates @ [\<lparr>Text = U4E00, Score = 0.5\<rparr>]
                else if strokeCount = 2 then candidates @ [\<lparr>Text = U4E8C, Score = 0.5\<rparr>]
                else if strokeCount = 3 then candidates @ [\<lparr>Text = U4E09, Score = 0.5\<rparr>]
                else candidates @ [\<lparr>Text = U4E2D, Score = 0.4\<rparr>])
             else candidates)
      in candidates)"

text \<open>\<open>candidates[:topN]\<close> panics when \<open>topN\<close> is negative.\<close>

definition generateCandidatesFromFeatures ::
    "ONNXRecognizer \<Rightarrow> features \<Rightarrow> int \<Rightarrow> int \<Rightarrow> error + Candidate list" where
  "generateCandidatesFromFeatures r fs strokeCount topN =
     (let candidates = generated_candidates fs strokeCount in
      if int (length candidates) > topN then
        (if topN < 0 then Inl Panic else Inr (take (nat topN) candidates))
      else Inr candidates)"

subsection \<open>ONNXRecognizer.Recognize\<close>

text \<open>The debug printing between the two calls has no effect on the result.\<close>

definition ONNX_Recognize ::
    "ONNXRecognizer \<Rightarrow> Stroke list \<Rightarrow> int \<Rightarrow> int \<Rightarrow> int \<Rightarrow> error + Candidate list" where
  "ONNX_Recognize r strokes width height topN0 =
     (let topN = (if topN0 \<le> 0 then 10 else topN0) in
      if length strokes = 0 then Inr []
      else
        case strokesToTensor r strokes width height of Inl e \<Rightarrow> Inl e | Inr tensor \<Rightarrow>
        case analyzeTensorFeatures r tensor width height of Inl e \<Rightarrow> Inl e | Inr fs \<Rightarrow>
          generateCandidatesFromFeatures r fs (int (length strokes)) topN)"

subsection \<open>SimpleRecognizer\<close>

text \<open>
  Modelled on Go's \<open>math.Atan2(y, x)\<close>: the angle of the point \<open>(x, y)\<close>, in
  \<open>(-pi, pi]\<close>, and 0 at the origin.
\<close>

definition atan2 :: "real \<Rightarrow> real \<Rightarrow> real" where
  "atan2 y x =
     (if x > 0 then arctan (y / x)
      else if x < 0 \<and> y \<ge> 0 then arctan (y / x) + pi
      else if x < 0 \<and> y < 0 then arctan (y / x) - pi
      else if y > 0 then pi / 2
      else if y < 0 then - pi / 2
      else 0)"

definition analyzeStrokeDirection :: "Stroke \<Rightarrow> string" where
  "analyzeStrokeDirection stroke =
     (let pts = Stroke.Points stroke in
      if length pts < 2 then ''dot''
      else
        let start = pts ! 0; end = pts ! (length pts - 1);
            dx = X end - X start; dy = Y end - Y start;
            angle = atan2 dy dx * 180 / pi;
            angle = (if angle < 0 then angle + 360 else angle)
        in if \<bar>dx\<bar> < 5 \<and> \<bar>dy\<bar> < 5 then ''dot''
           else if angle \<ge> 315 \<or> angle < 45 \<or> (angle \<ge> 135 \<and> angle < 225) then ''horizontal''
           else if (angle \<ge> 45 \<and> angle < 135) \<or> (angle \<ge> 225 \<and> angle < 315) then ''vertical''
           else if angle \<ge> 45 \<and> angle < 135 then ''diagonal_up''
           else ''diagonal_down'')"

text \<open>
  When the first and the last point coincide the divisor is 0 and every
  deviation is \<open>0/0\<close>, NaN: both comparisons of the average fail and the answer is
  \<open>curved\<close>. The average is that of the reals: where it is exactly 5 or 15 the
  rounded \<open>float64\<close> average can fall on the other side.
\<close>

definition analyzeStrokeShape :: "Stroke \<Rightarrow> string" where
  "analyzeStrokeShape stroke =
     (let pts = Stroke.Points stroke in
      if length pts < 3 then ''straight''
      else
        let start = pts ! 0; end = pts ! (length pts - 1);
            divisor = sqrt ((Y end - Y start) ^ 2 + (X end - X start) ^ 2);
            totalDeviation =
              foldl (\<lambda>total i.
                       let point = pts ! i;
                           deviation = \<bar>(Y end - Y start) * X point - (X end - X start) * Y point
                                         + X end * Y start - Y end * X start\<bar> / divisor
                       in total + deviation)
                0 [1..<length pts - 1];
            avgDeviation = totalDeviation / real (length pts - 2)
        in if divisor = 0 then ''curved''
           else if avgDeviation < 5 then ''straight''
           else if avgDeviation < 15 then ''slightly_curved''
           else ''curved'')"

text \<open>
  \<open>simple_candidates\<close> is the body of \<open>SimpleRecognizer.Recognize\<close> between the
  test for an empty stroke list and the comment \<open>Limit to topN results\<close>.
\<close>

definition simple_candidates :: "Stroke list \<Rightarrow> Candidate list" where
  "simple_candidates strokes =
     (let totalPoints = sum_list (map (\<lambda>stroke. int (length (Stroke.Points stroke))) strokes);
        strokeDirections = map analyzeStrokeDirection strokes;
        strokeShapes = map analyzeStrokeShape strokes;
        candidates = [];
        candidates =
          (if length strokes = 1 then
             (let dir = strokeDirections ! 0; shape = strokeShapes ! 0 in
              if dir = ''horizontal'' \<and> shape = ''straight'' then candidates @ [\<lparr>Text = U4E00, Score = 0.9\<rparr>, \<lparr>Text = U30FC, Score = 0.7\<rparr>]
              else if dir = ''vertical'' \<and> shape = ''straight'' then candidates @ [\<lparr>Text = U4E28, Score = 0.9\<rparr>, \<lparr>Text = UFF5C, Score = 0.7\<rparr>]
              else if dir = ''dot'' then candidates @ [\<lparr>Text = U4E36, Score = 0.8\<rparr>, \<lparr>Text = U3002, Score = 0.6\<rparr>]
              else if shape = ''curved'' then candidates @ [\<lparr>Text = U3057, Score = 0.7\<rparr>, \<lparr>Text = U304F, Score = 0.5\<rparr>]
              else candidates)
           else candidates);
        candidates =
          (if length strokes = 2 then
             (let dir1 = strokeDirections ! 0; dir2 = strokeDirections ! 1 in
              if dir1 = ''horizontal'' \<and> dir2 = ''horizontal'' then candidates @ [\<lparr>Text = U4E8C, Score = 0.8\<rparr>, \<lparr>Text = U30CB, Score = 0.6\<rparr>]
              else if (dir1 = ''horizontal'' \<and> dir2 = ''vertical'')
                      \<or> (dir1 = ''vertical'' \<and> dir2 = ''horizontal'') then candidates @ [\<lparr>Text = U5341, Score = 0.8\<rparr>, \<lparr>Text = UFF0B, Score = 0.6\<rparr>]
              else if dir1 = ''diagonal_up'' \<and> dir2 = ''diagonal_up'' then candidates @ [\<lparr>Text = U4EBA, Score = 0.7\<rparr>, \<lparr>Text = U5165, Score = 0.5\<rparr>]
              else candidates)
           else candidates);
        candidates =
          (if length strokes = 3 then
             (let dir1 = strokeDirections ! 0; dir2 = strokeDirections ! 1;
                  dir3 = strokeDirections ! 2 in
              if dir1 = ''horizontal'' \<and> dir2 = ''horizontal'' \<and> dir3 = ''horizontal''
              then candidates @ [\<lparr>Text = U4E09, Score = 0.8\<rparr>, \<lparr>Text = U30DF, Score = 0.6\<rparr>]
              else if dir1 = ''horizontal'' \<and> dir2 = ''vertical'' \<and> dir3 = ''diagonal_down''
              then candidates @ [\<lparr>Text = U5927, Score = 0.7\<rparr>, \<lparr>Text = U592A, Score = 0.5\<rparr>]
              else candidates)
           else candidates);
        candidates =
          (if length strokes \<ge> 4 then
             (let horizontalCount = int (length (filter (\<lambda>dir. dir = ''horizontal'') strokeDirections));
                  verticalCount = int (length (filter (\<lambda>dir. dir \<noteq> ''horizontal'' \<and> dir = ''vertical'')
                                                 strokeDirections));
                  candidates = (if horizontalCount \<ge> 2 \<and> verticalCount \<ge> 2
                                then candidates @ [\<lparr>Text = U4E2D, Score = 0.6\<rparr>, \<lparr>Text = U7530, Score = 0.5\<rparr>] else candidates)
              in candidates @ [\<lparr>Text = U56FD, Score = 0.5\<rparr>, \<lparr>Text = U5B66, Score = 0.4\<rparr>, \<lparr>Text = U751F, Score = 0.3\<rparr>])
           else candidates);
        candidates = (if totalPoints > 20 then candidates @ [\<lparr>Text = U66F8, Score = 0.3\<rparr>, \<lparr>Text = U5B57, Score = 0.2\<rparr>] else candidates);
        candidates =
          (if length candidates = 0 then
             (if length strokes = 1 then candidates @ [\<lparr>Text = U4E00, Score = 0.5\<rparr>]
              else if length strokes = 2 then candidates @ [\<lparr>Text = U4E8C, Score = 0.5\<rparr>]
              else if length strokes = 3 then candidates @ [\<lparr>Text = U4E09, Score = 0.5\<rparr>]
              else candidates @ [\<lparr>Text = U4E2D, Score = 0.4\<rparr>])
           else candidates)
      in candidates)"

definition Simple_Recognize ::
    "SimpleRecognizer \<Rightarrow> Stroke list \<Rightarrow> int \<Rightarrow> int \<Rightarrow> int \<Rightarrow> error + Candidate list" where
  "Simple_Recognize s strokes width height topN0 =
     (let topN = (if topN0 \<le> 0 then 10 else topN0) in
      if length strokes = 0 then Inr []
      else
        let candidates = simple_candidates strokes
        in if int (length candidates) > topN then Inr (take (nat topN) candidates)
           else Inr candidates)"

subsection \<open>The cross feature in the specification's words\<close>

text \<open>
  A horizontal run of \<open>n\<close> cells is \<open>n\<close> consecutive active cells of one row, a
  vertical run \<open>n\<close> consecutive active cells of one column; the longest run of a
  grid without cells has length 0. \<open>spec_has_cross\<close> compares the longest runs
  with a third of the width and of the height.
\<close>

definition horizontal_run :: "real list \<Rightarrow> int \<Rightarrow> int \<Rightarrow> nat \<Rightarrow> bool" where
  "horizontal_run tensor width height n =
     (\<exists>y \<in> {0..<nat height}. \<exists>x \<in> {0..nat width}.
        x + n \<le> nat width \<and> (\<forall>i \<in> {0..<n}. active tensor width (x + i) y))"

definition vertical_run :: "real list \<Rightarrow> int \<Rightarrow> int \<Rightarrow> nat \<Rightarrow> bool" where
  "vertical_run tensor width height n =
     (\<exists>x \<in> {0..<nat width}. \<exists>y \<in> {0..nat height}.
        y + n \<le> nat height \<and> (\<forall>i \<in> {0..<n}. active tensor width x (y + i)))"

definition longest_horizontal_run :: "real list \<Rightarrow> int \<Rightarrow> int \<Rightarrow> nat" where
  "longest_horizontal_run tensor width height =
     Max (insert 0 {n \<in> {0..nat width}. horizontal_run tensor width height n})"

definition longest_vertical_run :: "real list \<Rightarrow> int \<Rightarrow> int \<Rightarrow> nat" where
  "longest_vertical_run tensor width height =
     Max (insert 0 {n \<in> {0..nat height}. vertical_run tensor width height n})"

definition spec_has_cross :: "real list \<Rightarrow> int \<Rightarrow> int \<Rightarrow> real" where
  "spec_has_cross tensor width height =
     (if real (longest_horizontal_run tensor width height) > real_of_int width / 3
         \<and> real (longest_vertical_run tensor width height) > real_of_int height / 3
      then 1 else 0)"

section \<open>Notions used in the proofs\<close>

text \<open>Every pixel of an image is black or white.\<close>

definition white_or_black :: "Gray \<Rightarrow> bool" where
  "white_or_black img = (\<forall>p. Pix img p = 0 \<or> Pix img p = 255)"

text \<open>Every pixel that is not black lies in the box \<open>[x0, x1] x [y0, y1]\<close>.\<close>

definition lit_within :: "Gray \<Rightarrow> int \<Rightarrow> int \<Rightarrow> int \<Rightarrow> int \<Rightarrow> bool" where
  "lit_within img x0 x1 y0 y1 =
     (\<forall>x y. GrayAt img x y \<noteq> 0 \<longrightarrow> x0 \<le> x \<and> x \<le> x1 \<and> y0 \<le> y \<and> y \<le> y1)"

text \<open>
  A list of cells has a run of \<open>n\<close> when \<open>n\<close> consecutive cells of it are active;
  \<open>trail\<close> is the length of the run at its end.
\<close>

definition has_run :: "bool list \<Rightarrow> nat \<Rightarrow> bool" where
  "has_run cells n = (\<exists>ys zs. cells = ys @ replicate n True @ zs)"

definition trail :: "bool list \<Rightarrow> nat" where
  "trail cells = length (takeWhile (\<lambda>b. b) (rev cells))"

text \<open>Every active cell of the grid lies in the box \<open>[x0, x1] x [y0, y1]\<close>.\<close>

definition active_within :: "real list \<Rightarrow> int \<Rightarrow> int \<Rightarrow> nat \<Rightarrow> nat \<Rightarrow> nat \<Rightarrow> nat \<Rightarrow> bool" where
  "active_within tensor width height x0 x1 y0 y1 =
     (\<forall>x < nat width. \<forall>y < nat height.
        active tensor width x y \<longrightarrow> x0 \<le> x \<and> x \<le> x1 \<and> y0 \<le> y \<and> y \<le> y1)"

text \<open>A pixel is lit when it is white; two images have the same rectangle.\<close>

definition lit :: "Gray \<Rightarrow> int \<Rightarrow> int \<Rightarrow> bool" where
  "lit img x y = (GrayAt img x y = 255)"

definition same_rect :: "Gray \<Rightarrow> Gray \<Rightarrow> bool" where
  "same_rect a b = (MinX a = MinX b \<and> MinY a = MinY b \<and> MaxX a = MaxX b \<and> MaxY a = MaxY b)"

text \<open>A longer horizontal stroke, from \<open>(10, 10)\<close> to \<open>(40, 10)\<close>.\<close>

definition sample_hline40 :: Stroke where
  "sample_hline40 = \<lparr>Points = [\<lparr>X = 10, Y = 10\<rparr>, \<lparr>X = 40, Y = 10\<rparr>]\<rparr>"

text \<open>
  The stroke of the specification's scenario, from \<open>(10, 10)\<close> to \<open>(20, 10)\<close>, and
  the recognizer that \<open>NewONNXRecognizer\<close> returns for the model path of the tests.
\<close>

definition sample_hline :: Stroke where
  "sample_hline = \<lparr>Points = [\<lparr>X = 10, Y = 10\<rparr>, \<lparr>X = 20, Y = 10\<rparr>]\<rparr>"

definition sample_recognizer :: ONNXRecognizer where
  "sample_recognizer = \<lparr>modelPath = ''test_model.onnx'', inputName = ''input'',
     outputName = ''output'', inputShape = [1, 1, 28, 28]\<rparr>"

section \<open>The connection registry\<close>

lemma send_all_clients:
  "clients (send_all wr b cs w) = filter (\<lambda>c. c \<notin> set cs \<or> wr c b) (clients w)"
proof (induction cs arbitrary: w)
  case Nil
  show ?case by simp
next
  case (Cons c cs)
  show ?case
    by (cases "wr c b") (auto simp: Cons.IH removeAll_filter_not_eq intro: filter_cong)
qed

lemma send_all_closed:
  "set (closed (send_all wr b cs w)) = set (closed w) \<union> {c \<in> set cs. \<not> wr c b}"
  by (induction cs arbitrary: w) auto

lemma send_all_written:
  "set (written (send_all wr b cs w)) = set (written w) \<union> {(c, b) | c. c \<in> set cs \<and> wr c b}"
  by (induction cs arbitrary: w) auto

text \<open>
  C1. In one broadcast pass (the envelope having been serialised to \<open>b\<close>), every
  registered connection whose send fails is closed and removed, every registered
  connection whose send succeeds receives \<open>b\<close> and stays registered, and the
  registry after the pass is the registry before it without the failing
  connections.
\<close>

theorem broadcast_isolates_failed_sends:
  assumes "Marshal e v = Some b"
  shows "clients (broadcast e v w) = filter (\<lambda>c. WriteMessage e c b) (clients w)
       \<and> (\<forall>c \<in> set (clients w). \<not> WriteMessage e c b \<longrightarrow>
             c \<in> set (closed (broadcast e v w)) \<and> c \<notin> set (clients (broadcast e v w)))
       \<and> (\<forall>c \<in> set (clients w). WriteMessage e c b \<longrightarrow>
             (c, b) \<in> set (written (broadcast e v w)) \<and> c \<in> set (clients (broadcast e v w)))"
proof -
  let ?w1 = "w\<lparr>broadcast_calls := broadcast_calls w @ [v]\<rparr>"
  have eq: "broadcast e v w = send_all (WriteMessage e) b (clients w) ?w1"
    using assms by (simp add: broadcast_def Let_def)
  have c: "clients (broadcast e v w) = filter (\<lambda>c. WriteMessage e c b) (clients w)"
    unfolding eq send_all_clients by (auto intro: filter_cong)
  have cl: "set (closed (broadcast e v w))
      = set (closed w) \<union> {c \<in> set (clients w). \<not> WriteMessage e c b}"
    unfolding eq send_all_closed by simp
  have wr: "set (written (broadcast e v w))
      = set (written w) \<union> {(c, b) | c. c \<in> set (clients w) \<and> WriteMessage e c b}"
    unfolding eq send_all_written by simp
  show ?thesis
    unfolding cl wr using c by auto
qed


theorem broadcast_isolates_failed_sends_witness:
  "Marshal sample_env sample_msg = Some ''stroke''
   \<and> clients (broadcast sample_env sample_msg sample_world) = [1, 3]
   \<and> 2 \<in> set (closed (broadcast sample_env sample_msg sample_world))
   \<and> (1, ''stroke'') \<in> set (written (broadcast sample_env sample_msg sample_world))
   \<and> (3, ''stroke'') \<in> set (written (broadcast sample_env sample_msg sample_world))"
proof -
  have m: "Marshal sample_env sample_msg = Some ''stroke''"
    by (simp add: sample_env_def sample_msg_def)
  have w: "\<not> WriteMessage sample_env 2 ''stroke''" "WriteMessage sample_env 1 ''stroke''"
    "WriteMessage sample_env 3 ''stroke''" "clients sample_world = [1, 2, 3]"
    by (simp_all add: sample_env_def sample_world_def)
  show ?thesis
    using broadcast_isolates_failed_sends [OF m, of sample_world] m w by simp
qed

section \<open>The session loop\<close>

lemma send_all_calls:
  "save_calls (send_all wr b cs w) = save_calls w"
  "delete_calls (send_all wr b cs w) = delete_calls w"
  "broadcast_calls (send_all wr b cs w) = broadcast_calls w"
  by (induction cs arbitrary: w) auto

lemma broadcast_calls_after:
  "save_calls (broadcast e v w) = save_calls w"
  "delete_calls (broadcast e v w) = delete_calls w"
  "broadcast_calls (broadcast e v w) = broadcast_calls w @ [v]"
  by (simp_all add: broadcast_def Let_def send_all_calls split: option.split)

lemma copy_points: "map (\<lambda>p. \<lparr>X = X p, Y = Y p\<rparr>) ps = (ps :: Point list)"
  by (induction ps) auto

text \<open>What one stroke message does to the two call logs.\<close>

lemma handle_stroke_calls:
  assumes "Type m = ''stroke''" and "Stroke m = Some s"
  shows "save_calls (handle_message e m w) =
           (if snd (UserIDFromRequest e)
            then save_calls w @ [(fst (UserIDFromRequest e), Color s, Width s,
                   (if StartedAtUnixMs s = 0 then now e else StartedAtUnixMs s), ws_Stroke.Points s)]
            else save_calls w)"
    and "broadcast_calls (handle_message e m w) =
           broadcast_calls w @
           [m\<lparr>Stroke := Some (s\<lparr>StartedAtUnixMs :=
                  (if StartedAtUnixMs s = 0 then now e else StartedAtUnixMs s),
                ID := (if snd (UserIDFromRequest e) then
                         (case SaveStroke e (fst (UserIDFromRequest e), Color s, Width s,
                            (if StartedAtUnixMs s = 0 then now e else StartedAtUnixMs s), ws_Stroke.Points s)
                          of Inl err \<Rightarrow> ID s | Inr i \<Rightarrow> i)
                       else ID s)\<rparr>)\<rparr>]"
  using assms
  by (auto simp: handle_message_def Let_def broadcast_calls_after copy_points
           split: prod.splits sum.splits)

text \<open>
  C2. A stroke message whose sender's identity is not resolved causes no call of
  the store's save operation, and is broadcast once, its stroke carrying the id it
  arrived with (zero for a client that follows the protocol).
\<close>

theorem unresolved_identity_relays_without_saving:
  assumes "Type m = ''stroke''" and "Stroke m = Some s"
    and "\<not> snd (UserIDFromRequest e)"
  shows "save_calls (handle_message e m w) = save_calls w
       \<and> broadcast_calls (handle_message e m w)
           = broadcast_calls w @
             [m\<lparr>Stroke := Some (s\<lparr>StartedAtUnixMs :=
                (if StartedAtUnixMs s = 0 then now e else StartedAtUnixMs s)\<rparr>)\<rparr>]
       \<and> map (\<lambda>v. map_option ID (Stroke v)) (broadcast_calls (handle_message e m w))
           = map (\<lambda>v. map_option ID (Stroke v)) (broadcast_calls w) @ [Some (ID s)]"
  using handle_stroke_calls [OF assms(1,2), of e w] assms(3) by simp

theorem unresolved_identity_relays_without_saving_witness:
  "Type sample_msg = ''stroke'' \<and> Stroke sample_msg = Some sample_stroke
   \<and> \<not> snd (UserIDFromRequest (sample_env\<lparr>UserIDFromRequest := (0, False)\<rparr>))
   \<and> save_calls (handle_message (sample_env\<lparr>UserIDFromRequest := (0, False)\<rparr>)
        sample_msg sample_world) = []
   \<and> map (\<lambda>v. map_option ID (Stroke v))
        (broadcast_calls (handle_message (sample_env\<lparr>UserIDFromRequest := (0, False)\<rparr>)
           sample_msg sample_world)) = [Some 0]"
proof -
  have t: "Type sample_msg = ''stroke''" and s: "Stroke sample_msg = Some sample_stroke"
    by (simp_all add: sample_msg_def)
  have a: "\<not> snd (UserIDFromRequest (sample_env\<lparr>UserIDFromRequest := (0, False)\<rparr>))"
    by simp
  have i: "ID sample_stroke = 0"
    "save_calls sample_world = []" "broadcast_calls sample_world = []"
    by (simp_all add: sample_stroke_def sample_world_def)
  show ?thesis
    using unresolved_identity_relays_without_saving [OF t s a, of sample_world] t s i
    by simp
qed

text \<open>
  C4, as the code has it. Whether a stroke message is saved does not depend on
  its points: a message that carries a stroke object is passed to the store's
  save operation exactly when the sender's identity is resolved, with the points
  it carries (an empty list included), and is broadcast once in either case; a
  message of type stroke without a stroke object is neither saved nor broadcast.
\<close>

theorem stroke_saved_iff_identity_resolved:
  "Type m = ''stroke'' \<longrightarrow>
     (case Stroke m of
        None \<Rightarrow> handle_message e m w = w
      | Some s \<Rightarrow>
          length (broadcast_calls (handle_message e m w)) = Suc (length (broadcast_calls w))
          \<and> (if snd (UserIDFromRequest e)
             then \<exists>uid c wd t. save_calls (handle_message e m w)
                                 = save_calls w @ [(uid, c, wd, t, ws_Stroke.Points s)]
             else save_calls (handle_message e m w) = save_calls w))"
proof (cases "Stroke m")
  case None
  then show ?thesis by (simp add: handle_message_def)
next
  case (Some s)
  show ?thesis
  proof
    assume t: "Type m = ''stroke''"
    show "case Stroke m of
        None \<Rightarrow> handle_message e m w = w
      | Some s \<Rightarrow>
          length (broadcast_calls (handle_message e m w)) = Suc (length (broadcast_calls w))
          \<and> (if snd (UserIDFromRequest e)
             then \<exists>uid c wd t. save_calls (handle_message e m w)
                                 = save_calls w @ [(uid, c, wd, t, ws_Stroke.Points s)]
             else save_calls (handle_message e m w) = save_calls w)"
      using handle_stroke_calls [OF t Some, of e w] Some by simp
  qed
qed

theorem stroke_saved_iff_identity_resolved_witness:
  "Type sample_msg = ''stroke''
   \<and> ws_Stroke.Points sample_stroke = []
   \<and> length (broadcast_calls (handle_message sample_env sample_msg sample_world)) = 1
   \<and> (\<exists>uid c wd t. save_calls (handle_message sample_env sample_msg sample_world)
                      = [(uid, c, wd, t, [])])"
proof -
  have t: "Type sample_msg = ''stroke''" and s: "Stroke sample_msg = Some sample_stroke"
    by (simp_all add: sample_msg_def)
  have i: "ws_Stroke.Points sample_stroke = []" "snd (UserIDFromRequest sample_env)"
    "save_calls sample_world = []" "broadcast_calls sample_world = []"
    by (simp_all add: sample_stroke_def sample_world_def sample_env_def)
  show ?thesis
    using stroke_saved_iff_identity_resolved [of sample_msg sample_env sample_world] t s i
    by simp
qed

text \<open>
  The claim as the specification words it fails: a stroke with an empty points
  list, sent by a signed-in user, is passed to the store's save operation.
\<close>

theorem empty_points_stroke_is_saved:
  "ws_Stroke.Points sample_stroke = []
   \<and> save_calls sample_world = []
   \<and> save_calls (handle_message sample_env sample_msg sample_world)
       = [(7, ''#1d4ed8'', 4, 1700000000000, [])]"
  by (simp add: handle_message_def sample_msg_def sample_stroke_def sample_env_def
        sample_world_def broadcast_calls_after)

text \<open>
  C10. For a stroke message that carries a stroke object: a timestamp of 0 is
  replaced by the server's clock, any other timestamp is kept, and that value is
  the one in the broadcast envelope and the one passed to the store whenever the
  store is called.
\<close>

theorem zero_timestamp_replaced_by_server_time:
  assumes "Type m = ''stroke''" and "Stroke m = Some s"
  shows "map (\<lambda>v. map_option StartedAtUnixMs (Stroke v)) (broadcast_calls (handle_message e m w))
           = map (\<lambda>v. map_option StartedAtUnixMs (Stroke v)) (broadcast_calls w)
             @ [Some (if StartedAtUnixMs s = 0 then now e else StartedAtUnixMs s)]
       \<and> map (\<lambda>(uid, c, wd, t, ps). t) (save_calls (handle_message e m w))
           = map (\<lambda>(uid, c, wd, t, ps). t) (save_calls w)
             @ (if snd (UserIDFromRequest e)
                then [if StartedAtUnixMs s = 0 then now e else StartedAtUnixMs s] else [])"
  using handle_stroke_calls [OF assms, of e w] by simp

theorem zero_timestamp_replaced_by_server_time_witness:
  "Type sample_msg = ''stroke'' \<and> Stroke sample_msg = Some sample_stroke
   \<and> StartedAtUnixMs sample_stroke = 0 \<and> now sample_env = 1700000000000
   \<and> map (\<lambda>v. map_option StartedAtUnixMs (Stroke v))
        (broadcast_calls (handle_message sample_env sample_msg sample_world))
       = [Some 1700000000000]
   \<and> map (\<lambda>(uid, c, wd, t, ps). t)
        (save_calls (handle_message sample_env sample_msg sample_world))
       = [1700000000000]"
proof -
  have t: "Type sample_msg = ''stroke''" and s: "Stroke sample_msg = Some sample_stroke"
    by (simp_all add: sample_msg_def)
  have i: "StartedAtUnixMs sample_stroke = 0" "now sample_env = 1700000000000"
    "snd (UserIDFromRequest sample_env)"
    "save_calls sample_world = []" "broadcast_calls sample_world = []"
    by (simp_all add: sample_stroke_def sample_world_def sample_env_def)
  show ?thesis
    using zero_timestamp_replaced_by_server_time [OF t s, of sample_env sample_world] t s i
    by simp
qed

section \<open>The raster\<close>

lemma to_tensor_alt:
  "to_tensor img width height =
     foldl (\<lambda>tensor k. tensor[(case k of (y, x) \<Rightarrow> y * nat width + x) :=
                 (case k of (y, x) \<Rightarrow> real (unat (GrayAt img (int x) (int y))) / 255)])
       (replicate (nat (width * height)) 0)
       (List.product [0..<nat height] [0..<nat width])"
proof -
  have "(\<lambda>tensor (y, x). tensor[y * nat width + x := real (unat (GrayAt img (int x) (int y))) / 255])
      = (\<lambda>tensor k. tensor[(case k of (y, x) \<Rightarrow> y * nat width + x) :=
                 (case k of (y, x) \<Rightarrow> real (unat (GrayAt img (int x) (int y))) / 255)])"
    by (intro ext) (simp split: prod.split)
  then show ?thesis unfolding to_tensor_def by simp
qed

lemma length_foldl_update:
  "length (foldl (\<lambda>t k. t[idx k := val k]) t0 ks) = length t0"
  by (induction ks arbitrary: t0) auto

lemma set_foldl_update:
  "set (foldl (\<lambda>t k. t[idx k := val k]) t0 ks) \<subseteq> set t0 \<union> val ` set ks"
proof (induction ks arbitrary: t0)
  case Nil
  show ?case by simp
next
  case (Cons k ks)
  have "set (t0[idx k := val k]) \<subseteq> insert (val k) (set t0)"
    by (rule set_update_subset_insert)
  with Cons.IH [of "t0[idx k := val k]"] show ?case by auto
qed

lemma nth_foldl_update:
  assumes "inj_on idx (set ks)" and "k \<in> set ks" and "idx k < length t0"
  shows "foldl (\<lambda>t k. t[idx k := val k]) t0 ks ! idx k = val k"
  using assms
proof (induction ks rule: rev_induct)
  case Nil
  then show ?case by simp
next
  case (snoc k' ks)
  show ?case
  proof (cases "idx k' = idx k")
    case True
    with snoc.prems have "k' = k" by (auto simp: inj_on_def)
    with snoc.prems show ?thesis by (simp add: length_foldl_update)
  next
    case False
    with snoc.prems have "k \<in> set ks" "inj_on idx (set ks)" by (auto simp: inj_on_def)
    with snoc.IH snoc.prems(3) False show ?thesis by simp
  qed
qed

lemma length_to_tensor: "length (to_tensor img width height) = nat (width * height)"
  unfolding to_tensor_alt by (simp add: length_foldl_update)

lemma GrayAt_cases: "white_or_black img \<Longrightarrow> GrayAt img x y = 0 \<or> GrayAt img x y = 255"
  by (auto simp: GrayAt_def white_or_black_def)

lemma set_to_tensor_cases:
  assumes "v \<in> set (to_tensor img width height)"
  shows "v = 0 \<or> (\<exists>x y. v = real (unat (GrayAt img (int x) (int y))) / 255)"
proof -
  let ?val = "\<lambda>k. case k of (y, x) \<Rightarrow> real (unat (GrayAt img (int x) (int y))) / 255"
  let ?idx = "\<lambda>k. case k of (y, x) \<Rightarrow> y * nat width + x"
  let ?ks = "List.product [0..<nat height] [0..<nat width]"
  let ?t0 = "replicate (nat (width * height)) (0::real)"
  have "set (to_tensor img width height) \<subseteq> set ?t0 \<union> ?val ` set ?ks"
    unfolding to_tensor_alt by (rule set_foldl_update)
  with assms have "v \<in> set ?t0 \<or> v \<in> ?val ` set ?ks" by blast
  then show ?thesis
  proof
    assume "v \<in> set ?t0"
    then show ?thesis by simp
  next
    assume "v \<in> ?val ` set ?ks"
    then obtain k where "v = ?val k" by blast
    then show ?thesis by (cases k) auto
  qed
qed

lemma unat_gray: "unat (0 :: 8 word) = 0" "unat (255 :: 8 word) = 255"
  by simp_all

lemma set_to_tensor:
  assumes "white_or_black img" and "v \<in> set (to_tensor img width height)"
  shows "v = 0 \<or> v = 1"
proof -
  from set_to_tensor_cases [OF assms(2)] show ?thesis
  proof
    assume "v = 0" then show ?thesis by simp
  next
    assume "\<exists>x y. v = real (unat (GrayAt img (int x) (int y))) / 255"
    then obtain x y where v: "v = real (unat (GrayAt img (int x) (int y))) / 255" by blast
    from GrayAt_cases [OF assms(1), of "int x" "int y"] show ?thesis
    proof
      assume "GrayAt img (int x) (int y) = 0"
      with v show ?thesis by simp
    next
      assume "GrayAt img (int x) (int y) = 255"
      with v show ?thesis by (simp add: unat_gray)
    qed
  qed
qed

lemma set_to_tensor_black:
  assumes "\<And>x y. GrayAt img x y = 0" and "v \<in> set (to_tensor img width height)"
  shows "v = 0"
  using set_to_tensor_cases [OF assms(2)] assms(1) by auto

lemma nth_to_tensor:
  assumes "x < nat width" and "y < nat height"
  shows "to_tensor img width height ! (y * nat width + x)
           = real (unat (GrayAt img (int x) (int y))) / 255"
proof -
  let ?idx = "\<lambda>k. case k of (y, x) \<Rightarrow> y * nat width + x"
  let ?ks = "List.product [0..<nat height] [0..<nat width]"
  have inj: "inj_on ?idx (set ?ks)"
  proof (rule inj_onI)
    fix a b assume a: "a \<in> set ?ks" and b: "b \<in> set ?ks" and e: "?idx a = ?idx b"
    obtain y1 x1 y2 x2 where ab: "a = (y1, x1)" "b = (y2, x2)" by (cases a, cases b) auto
    from a b ab have lt: "x1 < nat width" "x2 < nat width" by auto
    from e ab have e': "y1 * nat width + x1 = y2 * nat width + x2" by simp
    from lt have "(y1 * nat width + x1) div nat width = y1" "(y2 * nat width + x2) div nat width = y2"
      "(y1 * nat width + x1) mod nat width = x1" "(y2 * nat width + x2) mod nat width = x2"
      by simp_all
    with e' have "y1 = y2" "x1 = x2" by simp_all
    with ab show "a = b" by simp
  qed
  have mem: "(y, x) \<in> set ?ks" using assms by simp
  have "y * nat width + x < (y + 1) * nat width" using assms by simp
  also have "\<dots> \<le> nat height * nat width" using assms by (intro mult_le_mono1) simp
  also have "\<dots> = nat (width * height)" using assms by (simp add: nat_mult_distrib mult.commute)
  finally have rng: "?idx (y, x) < length (replicate (nat (width * height)) (0::real))" by simp
  from nth_foldl_update [OF inj mem rng] show ?thesis
    unfolding to_tensor_alt by simp
qed

lemma foldl_invariant:
  assumes "P a" and "\<And>a x. P a \<Longrightarrow> x \<in> set xs \<Longrightarrow> P (f a x)"
  shows "P (foldl f a xs)"
  using assms by (induction xs arbitrary: a) auto

lemma white_or_black_blank: "white_or_black (blank_Gray width height)"
  by (simp add: white_or_black_def blank_Gray_def)

lemma GrayAt_blank: "GrayAt (blank_Gray width height) x y = 0"
  by (simp add: GrayAt_def blank_Gray_def)

lemma int64_wrap_id: "- (2 ^ 63) \<le> a \<Longrightarrow> a < 2 ^ 63 \<Longrightarrow> int64_wrap a = a"
  by (simp add: int64_wrap_def)

lemma sides_below_product:
  fixes width height :: int
  assumes "0 < width" and "0 < height"
  shows "width \<le> width * height" and "height \<le> width * height"
proof -
  from assms have "width * 1 \<le> width * height" by (intro mult_left_mono) simp_all
  then show "width \<le> width * height" by simp
  from assms have "1 * height \<le> width * height" by (intro mult_right_mono) simp_all
  then show "height \<le> width * height" by simp
qed

lemma NewGray_ok:
  assumes "0 < width" and "0 < height" and "width * height \<le> maxAlloc"
  shows "NewGray width height = Inr (blank_Gray width height)"
proof -
  from sides_below_product [OF assms(1,2)] assms(3)
  have b: "width \<le> 2 ^ 48" "height \<le> 2 ^ 48" "width * height \<le> 2 ^ 48"
    by (simp_all add: maxAlloc_def)
  from assms(1,2) b have w: "int64_wrap width = width" "int64_wrap height = height"
    by (simp_all add: int64_wrap_id)
  from assms(1,2) have p: "0 < width * height" by (rule mult_pos_pos)
  from assms(1,2) p b have m: "mul3NonNeg 1 width height = width * height"
    by (simp add: mul3NonNeg_def)
  from p assms(3) have n: "\<not> width * height < 0" "\<not> maxAlloc < width * height"
    by linarith+
  from assms(1,2) have s: "min 0 width = 0" "max 0 width = width"
    "min 0 height = 0" "max 0 height = height" by simp_all
  show ?thesis
    by (simp add: NewGray_def blank_Gray_def Let_def s w m makeslice_panics_def n)
qed

lemma strokesToTensor_ok:
  assumes "0 < width" and "0 < height" and "4 * (width * height) \<le> maxAlloc"
  shows "strokesToTensor r strokes width height
           = Inr (to_tensor (foldl (\<lambda>im stroke. draw_stroke width height stroke im)
                    (blank_Gray width height) strokes) width height)"
proof -
  from assms(1,2) have p: "0 < width * height" by (rule mult_pos_pos)
  with assms(3) have le: "width * height \<le> maxAlloc" by simp
  from p le have w: "int64_wrap (width * height) = width * height"
    by (simp add: int64_wrap_id maxAlloc_def)
  from p assms(3) have n: "\<not> width * height < 0" "\<not> maxAlloc < 4 * (width * height)"
    by linarith+
  show ?thesis
    by (simp add: strokesToTensor_def NewGray_ok [OF assms(1,2) le] w makeslice_panics_def
          Let_def n)
qed

lemma white_or_black_SetGray: "white_or_black img \<Longrightarrow> white_or_black (SetGray img x y 255)"
  by (simp add: white_or_black_def SetGray_def)

lemma white_or_black_stamp: "white_or_black img \<Longrightarrow> white_or_black (stamp width height x y img)"
  unfolding stamp_def
  by (rule foldl_invariant) (auto simp: Let_def white_or_black_SetGray)

lemma white_or_black_draw_stroke:
  "white_or_black img \<Longrightarrow> white_or_black (draw_stroke width height stroke img)"
  unfolding draw_stroke_def draw_points_def draw_segment_def Let_def
  by (auto intro!: foldl_invariant white_or_black_stamp)

lemma white_or_black_strokes:
  "white_or_black (foldl (\<lambda>im stroke. draw_stroke width height stroke im)
      (blank_Gray width height) strokes)"
  by (rule foldl_invariant) (auto simp: white_or_black_blank white_or_black_draw_stroke)

lemma GrayAt_SetGray:
  "GrayAt (SetGray img a b c) x y = (if In a b img \<and> x = a \<and> y = b then c else GrayAt img x y)"
  by (auto simp: GrayAt_def SetGray_def In_def)

lemma lit_within_stamp:
  assumes "lit_within img x0 x1 y0 y1"
    and "x0 + 1 \<le> cx" "cx + 1 \<le> x1" "y0 + 1 \<le> cy" "cy + 1 \<le> y1"
  shows "lit_within (stamp width height cx cy img) x0 x1 y0 y1"
  unfolding stamp_def
proof (rule foldl_invariant [where P = "\<lambda>im. lit_within im x0 x1 y0 y1"])
  show "lit_within img x0 x1 y0 y1" by fact
next
  fix a :: Gray and k :: "int \<times> int"
  assume a: "lit_within a x0 x1 y0 y1" and k: "k \<in> set (List.product [- 1, 0, 1] [- 1, 0, 1])"
  obtain dy dx where kk: "k = (dy, dx)" by (cases k)
  from k kk have d: "- 1 \<le> dx" "dx \<le> 1" "- 1 \<le> dy" "dy \<le> 1" by auto
  show "lit_within (case k of (dy, dx) \<Rightarrow>
           let nx = cx + dx; ny = cy + dy in
           if nx \<ge> 0 \<and> nx < width \<and> ny \<ge> 0 \<and> ny < height
           then SetGray a nx ny 255 else a) x0 x1 y0 y1"
    using a d assms(2-5) unfolding lit_within_def kk
    by (auto simp: Let_def GrayAt_SetGray)
qed

lemma int_of_float64_mono: "a \<le> b \<Longrightarrow> int_of_float64 a \<le> int_of_float64 b"
proof -
  assume ab: "a \<le> b"
  consider "0 \<le> a" | "b < 0" | "a < 0" "0 \<le> b" by linarith
  then show ?thesis
  proof cases
    case 1 with ab show ?thesis by (simp add: int_of_float64_def floor_mono)
  next
    case 2 with ab show ?thesis by (simp add: int_of_float64_def ceiling_mono)
  next
    case 3
    then have "\<lceil>a\<rceil> \<le> 0" "0 \<le> \<lfloor>b\<rfloor>" by (simp_all add: ceiling_le_iff)
    then have "\<lceil>a\<rceil> \<le> \<lfloor>b\<rfloor>" by linarith
    with 3 show ?thesis unfolding int_of_float64_def by simp
  qed
qed

lemma int_of_float64_of_int: "int_of_float64 (of_int n) = n"
  by (simp add: int_of_float64_def)

lemma between_points:
  fixes a b lo hi t :: real
  assumes "lo \<le> a" "a \<le> hi" "lo \<le> b" "b \<le> hi" "0 \<le> t" "t \<le> 1"
  shows "lo \<le> a + t * (b - a) \<and> a + t * (b - a) \<le> hi"
proof -
  have e: "a + t * (b - a) = (1 - t) * a + t * b" by (simp add: algebra_simps)
  have "(1 - t) * lo + t * lo \<le> (1 - t) * a + t * b"
    using assms by (intro add_mono mult_left_mono) auto
  moreover have "(1 - t) * a + t * b \<le> (1 - t) * hi + t * hi"
    using assms by (intro add_mono mult_left_mono) auto
  ultimately show ?thesis unfolding e by (simp add: algebra_simps)
qed

text \<open>A stroke whose points lie in a box lights pixels only within one pixel of that box.\<close>

lemma lit_within_draw_stroke:
  assumes lit: "lit_within img (bx0 - 1) (bx1 + 1) (by0 - 1) (by1 + 1)"
    and pts: "\<forall>p \<in> set (Stroke.Points stroke).
               of_int bx0 \<le> X p \<and> X p \<le> of_int bx1 \<and> of_int by0 \<le> Y p \<and> Y p \<le> of_int by1"
  shows "lit_within (draw_stroke width height stroke img) (bx0 - 1) (bx1 + 1) (by0 - 1) (by1 + 1)"
proof -
  let ?P = "\<lambda>im. lit_within im (bx0 - 1) (bx1 + 1) (by0 - 1) (by1 + 1)"
  have centre: "?P (stamp width height (int_of_float64 u) (int_of_float64 v) im)"
    if "?P im" "of_int bx0 \<le> u" "u \<le> of_int bx1" "of_int by0 \<le> v" "v \<le> of_int by1" for im u v
  proof -
    from that(2-5) have "bx0 \<le> int_of_float64 u" "int_of_float64 u \<le> bx1"
      "by0 \<le> int_of_float64 v" "int_of_float64 v \<le> by1"
      using int_of_float64_mono [of "of_int bx0" u] int_of_float64_mono [of u "of_int bx1"]
        int_of_float64_mono [of "of_int by0" v] int_of_float64_mono [of v "of_int by1"]
      by (simp_all add: int_of_float64_of_int)
    with that(1) show ?thesis by (intro lit_within_stamp) auto
  qed
  have points: "?P (draw_points width height (Stroke.Points stroke) im)" if "?P im" for im
    unfolding draw_points_def using that pts
    by (intro foldl_invariant [where P = ?P]) (auto intro!: centre)
  have segment: "?P (draw_segment width height p1 p2 im)"
    if "?P im" "p1 \<in> set (Stroke.Points stroke)" "p2 \<in> set (Stroke.Points stroke)" for im p1 p2
  proof -
    let ?steps = "int_of_float64 (sqrt ((X p2 - X p1) * (X p2 - X p1) + (Y p2 - Y p1) * (Y p2 - Y p1))) + 1"
    have "0 \<le> int_of_float64 (sqrt ((X p2 - X p1) * (X p2 - X p1) + (Y p2 - Y p1) * (Y p2 - Y p1)))"
      using int_of_float64_mono [of 0 "sqrt ((X p2 - X p1) * (X p2 - X p1) + (Y p2 - Y p1) * (Y p2 - Y p1))"]
      by (simp add: int_of_float64_def)
    then have st: "1 \<le> ?steps" by simp
    have step: "?P (stamp width height
         (int_of_float64 (X p1 + (real j / real_of_int ?steps) * (X p2 - X p1)))
         (int_of_float64 (Y p1 + (real j / real_of_int ?steps) * (Y p2 - Y p1))) im')"
      if "?P im'" "j \<in> set [0..<Suc (nat ?steps)]" for im' j
    proof -
      from that(2) have "j \<le> nat ?steps" by auto
      with st have "int j \<le> ?steps" by linarith
      then have "real_of_int (int j) \<le> real_of_int ?steps" by (simp only: of_int_le_iff)
      then have "real j \<le> real_of_int ?steps" by simp
      with st have t: "0 \<le> real j / real_of_int ?steps" "real j / real_of_int ?steps \<le> 1"
        by simp_all
      from pts \<open>p1 \<in> _\<close> \<open>p2 \<in> _\<close> have
        b: "of_int bx0 \<le> X p1" "X p1 \<le> of_int bx1" "of_int bx0 \<le> X p2" "X p2 \<le> of_int bx1"
           "of_int by0 \<le> Y p1" "Y p1 \<le> of_int by1" "of_int by0 \<le> Y p2" "Y p2 \<le> of_int by1"
        by auto
      show ?thesis
        using between_points [OF b(1-4) t] between_points [OF b(5-8) t] that(1)
        by (intro centre) auto
    qed
    show ?thesis
      unfolding draw_segment_def Let_def
      apply (rule foldl_invariant [where P = ?P])
       apply (rule that(1))
      apply (rule step)
       apply assumption+
      done
  qed
  show ?thesis
  proof (cases "length (Stroke.Points stroke) < 1")
    case True
    with lit show ?thesis by (simp add: draw_stroke_def)
  next
    case False
    have "?P (foldl (\<lambda>im i. draw_segment width height (Stroke.Points stroke ! i)
                 (Stroke.Points stroke ! (i + 1)) im)
            (draw_points width height (Stroke.Points stroke) img)
            [0..<length (Stroke.Points stroke) - 1])"
    proof (rule foldl_invariant [where P = ?P])
      show "?P (draw_points width height (Stroke.Points stroke) img)" by (rule points [OF lit])
    next
      fix a i assume "?P a" "i \<in> set [0..<length (Stroke.Points stroke) - 1]"
      then show "?P (draw_segment width height (Stroke.Points stroke ! i)
                 (Stroke.Points stroke ! (i + 1)) a)"
        by (intro segment) auto
    qed
    with False show ?thesis by (simp add: draw_stroke_def Let_def)
  qed
qed

text \<open>
  C9, as the code has it. For positive raster sizes whose grid the runtime
  allocates (four bytes for each of the \<open>width * height\<close> cells, at most
  \<open>maxAlloc\<close> bytes in all) the rasterization returns a grid, without a panic,
  of exactly \<open>width * height\<close> cells, each of them 0 or 1, and for an empty stroke
  list each of them 0.
\<close>

theorem tensor_is_a_binary_grid:
  assumes "0 < width" and "0 < height" and "4 * (width * height) \<le> maxAlloc"
  shows "\<exists>tensor. strokesToTensor r strokes width height = Inr tensor
           \<and> length tensor = nat width * nat height
           \<and> (\<forall>v \<in> set tensor. v = 0 \<or> v = 1)
           \<and> (strokes = [] \<longrightarrow> (\<forall>v \<in> set tensor. v = 0))"
proof -
  let ?img = "foldl (\<lambda>im stroke. draw_stroke width height stroke im) (blank_Gray width height) strokes"
  have t: "strokesToTensor r strokes width height = Inr (to_tensor ?img width height)"
    by (rule strokesToTensor_ok [OF assms])
  have len: "length (to_tensor ?img width height) = nat width * nat height"
    using assms(1,2) by (simp add: length_to_tensor nat_mult_distrib)
  have bin: "\<forall>v \<in> set (to_tensor ?img width height). v = 0 \<or> v = 1"
    using set_to_tensor [OF white_or_black_strokes] by blast
  have blank: "\<forall>v \<in> set (to_tensor ?img width height). v = 0" if "strokes = []"
    using that set_to_tensor_black [of "blank_Gray width height"] by (simp add: GrayAt_blank)
  from t len bin blank show ?thesis by blast
qed

theorem tensor_is_a_binary_grid_witness:
  "(0::int) < 3 \<and> (0::int) < 2 \<and> 4 * (3 * 2) \<le> maxAlloc
   \<and> strokesToTensor sample_recognizer [\<lparr>Points = [\<lparr>X = 0, Y = 0\<rparr>]\<rparr>] 3 2 = Inr [1, 1, 0, 1, 1, 0]
   \<and> (\<exists>tensor. strokesToTensor sample_recognizer [\<lparr>Points = [\<lparr>X = 0, Y = 0\<rparr>]\<rparr>] 3 2 = Inr tensor
           \<and> length tensor = 6 \<and> (\<forall>v \<in> set tensor. v = 0 \<or> v = 1))"
proof -
  have m: "4 * (3 * 2) \<le> maxAlloc" by (simp add: maxAlloc_def)
  have r: "replicate 6 (0::real) = [0, 0, 0, 0, 0, 0]"
    by (simp add: eval_nat_numeral)
  have u: "(x # xs)[numeral k := y] = x # xs[pred_numeral k := y]" for x y :: real and xs k
    by (simp add: numeral_eq_Suc)
  have "strokesToTensor sample_recognizer [\<lparr>Points = [\<lparr>X = 0, Y = 0\<rparr>]\<rparr>] 3 2
      = Inr (to_tensor (foldl (\<lambda>im stroke. draw_stroke 3 2 stroke im) (blank_Gray 3 2)
               [\<lparr>Points = [\<lparr>X = 0, Y = 0\<rparr>]\<rparr>]) 3 2)"
    by (rule strokesToTensor_ok) (simp_all add: maxAlloc_def)
  also have "\<dots> = Inr [1, 1, 0, 1, 1, 0]"
    by (simp add: draw_stroke_def draw_points_def stamp_def to_tensor_def
          blank_Gray_def SetGray_def GrayAt_def In_def int_of_float64_def Let_def upt_rec r u)
  finally have e: "strokesToTensor sample_recognizer [\<lparr>Points = [\<lparr>X = 0, Y = 0\<rparr>]\<rparr>] 3 2
      = Inr [1, 1, 0, 1, 1, 0]" .
  show ?thesis
    using tensor_is_a_binary_grid [of 3 2 sample_recognizer "[\<lparr>Points = [\<lparr>X = 0, Y = 0\<rparr>]\<rparr>]"] e m
    by simp
qed

text \<open>
  Without the bound the statement fails: on a raster of \<open>2^32 x 2^32\<close> cells the
  number of pixels does not fit an \<open>int64\<close>, \<open>image.NewGray\<close> panics, and no grid is
  returned, whatever the strokes.
\<close>

theorem huge_raster_panics:
  "(0::int) < 4294967296
   \<and> strokesToTensor sample_recognizer [] 4294967296 4294967296 = Inl Panic"
  by (simp add: strokesToTensor_def NewGray_def blank_Gray_def mul3NonNeg_def int64_wrap_def
        Let_def)

section \<open>Runs of active cells\<close>

lemma has_run_0: "has_run cells 0"
  unfolding has_run_def by (intro exI [of _ "[]"] exI [of _ cells]) simp

lemma has_run_le: "has_run cells n \<Longrightarrow> m \<le> n \<Longrightarrow> has_run cells m"
proof -
  assume "has_run cells n" and mn: "m \<le> n"
  then obtain ys zs where c: "cells = ys @ replicate n True @ zs" unfolding has_run_def by blast
  from mn have "replicate n True = replicate m True @ replicate (n - m) True"
    by (simp add: replicate_add [symmetric])
  with c have "cells = ys @ replicate m True @ (replicate (n - m) True @ zs)" by simp
  then show ?thesis unfolding has_run_def by blast
qed

lemma trail_snoc: "trail (xs @ [True]) = Suc (trail xs)" "trail (xs @ [False]) = 0"
  by (simp_all add: trail_def)

lemma all_True_replicate: "(\<forall>b \<in> set bs. b) \<Longrightarrow> bs = replicate (length bs) True"
  by (induction bs) auto

lemma has_run_trail: "has_run cells (trail cells)"
proof -
  let ?t = "takeWhile (\<lambda>b. b) (rev cells)" and ?d = "dropWhile (\<lambda>b. b) (rev cells)"
  have "rev cells = ?t @ ?d" by simp
  then have "cells = rev ?d @ rev ?t" by (metis rev_append rev_rev_ident)
  moreover have "\<forall>b \<in> set (rev ?t). b" by (auto dest: set_takeWhileD)
  then have "rev ?t = replicate (length (rev ?t)) True" by (rule all_True_replicate)
  ultimately have "cells = rev ?d @ replicate (trail cells) True @ []"
    by (simp add: trail_def)
  then show ?thesis unfolding has_run_def by blast
qed

lemma suffix_le_trail: "xs = ys @ replicate k True \<Longrightarrow> k \<le> trail xs"
  by (simp add: trail_def takeWhile_append2 [where P = "\<lambda>b. b"] takeWhile_append)

lemma has_run_snoc:
  assumes "has_run (xs @ [a]) n"
  shows "has_run xs n \<or> (a \<and> n \<le> Suc (trail xs))"
proof -
  from assms obtain ys zs where c: "xs @ [a] = ys @ replicate n True @ zs"
    unfolding has_run_def by blast
  show ?thesis
  proof (cases zs rule: rev_cases)
    case Nil
    show ?thesis
    proof (cases n)
      case 0
      then show ?thesis by (simp add: has_run_0)
    next
      case (Suc k)
      with c Nil have "xs @ [a] = (ys @ replicate k True) @ [True]"
        by (simp add: replicate_append_same)
      then have "xs = ys @ replicate k True" "a" by simp_all
      with suffix_le_trail [of xs ys k] Suc show ?thesis by simp
    qed
  next
    case (snoc zs' b)
    with c have "xs @ [a] = (ys @ replicate n True @ zs') @ [b]" by simp
    then have "xs = ys @ replicate n True @ zs'" by simp
    then show ?thesis unfolding has_run_def by blast
  qed
qed

lemma has_run_append: "has_run xs n \<Longrightarrow> has_run (xs @ ws) n"
  unfolding has_run_def by (metis append.assoc)

lemma scan_step_simps:
  "scan_step (l, m) True = (l + 1, m)"
  "scan_step (l, m) False = (0, max l m)"
  by (simp_all add: scan_step_def max_def)

lemma scan_invariant:
  assumes "foldl scan_step (0, 0) xs = (l, m)"
  shows "l = int (trail xs) \<and> 0 \<le> m \<and> has_run xs (nat m)
       \<and> (\<forall>n. has_run xs n \<longrightarrow> int n \<le> max l m)"
  using assms
proof (induction xs arbitrary: l m rule: rev_induct)
  case Nil
  then show ?case by (auto simp: trail_def has_run_def)
next
  case (snoc a xs)
  obtain l0 m0 where s0: "foldl scan_step (0, 0) xs = (l0, m0)" by (cases "foldl scan_step (0, 0) xs")
  from snoc.IH [OF s0] have ih: "l0 = int (trail xs)" "0 \<le> m0" "has_run xs (nat m0)"
    "\<And>n. has_run xs n \<Longrightarrow> int n \<le> max l0 m0" by auto
  show ?case
  proof (cases a)
    case True
    with snoc.prems s0 have lm: "l = l0 + 1" "m = m0" by (simp_all add: scan_step_simps)
    have "int n \<le> max l m" if "has_run (xs @ [a]) n" for n
      using has_run_snoc [OF that] ih(1) ih(4) [of n] lm by auto
    with lm ih True show ?thesis by (auto simp: trail_snoc has_run_append)
  next
    case False
    with snoc.prems s0 have lm: "l = 0" "m = max l0 m0" by (simp_all add: scan_step_simps)
    have "has_run xs (nat l0)" using ih(1) has_run_trail [of xs] by simp
    with ih(3) have "has_run xs (nat (max l0 m0))" by (simp add: max_def)
    moreover have "int n \<le> max l m" if "has_run (xs @ [a]) n" for n
      using has_run_snoc [OF that] ih(4) [of n] lm False ih(1,2) by auto
    ultimately show ?thesis using lm ih False by (auto simp: trail_snoc has_run_append)
  qed
qed

lemma max_run_props:
  "0 \<le> max_run cells" "has_run cells (nat (max_run cells))"
  "has_run cells n \<Longrightarrow> int n \<le> max_run cells"
proof -
  obtain l m where s: "foldl scan_step (0, 0) cells = (l, m)"
    by (cases "foldl scan_step (0, 0) cells")
  from scan_invariant [OF s] have i: "l = int (trail cells)" "0 \<le> m" "has_run cells (nat m)"
    "\<And>n. has_run cells n \<Longrightarrow> int n \<le> max l m" by auto
  have mr: "max_run cells = max l m" by (simp add: max_run_def s max_def)
  show "0 \<le> max_run cells" using i(2) mr by simp
  have "has_run cells (nat l)" using i(1) has_run_trail [of cells] by simp
  with i(3) show "has_run cells (nat (max_run cells))" by (simp add: mr max_def)
  show "has_run cells n \<Longrightarrow> int n \<le> max_run cells" using i(4) mr by simp
qed

lemma has_run_nth:
  "has_run cells n \<longleftrightarrow> (\<exists>i. i + n \<le> length cells \<and> (\<forall>k < n. cells ! (i + k)))"
proof
  assume "has_run cells n"
  then obtain ys zs where c: "cells = ys @ replicate n True @ zs" unfolding has_run_def by blast
  have "length ys + n \<le> length cells" using c by simp
  moreover have "cells ! (length ys + k)" if "k < n" for k
    using that c by (simp add: nth_append)
  ultimately show "\<exists>i. i + n \<le> length cells \<and> (\<forall>k < n. cells ! (i + k))" by blast
next
  assume "\<exists>i. i + n \<le> length cells \<and> (\<forall>k < n. cells ! (i + k))"
  then obtain i where i: "i + n \<le> length cells" "\<And>k. k < n \<Longrightarrow> cells ! (i + k)" by blast
  have mid: "take n (drop i cells) = replicate n True"
    using i by (intro nth_equalityI) auto
  have "drop i cells = take n (drop i cells) @ drop n (drop i cells)"
    by (simp only: append_take_drop_id)
  moreover have "cells = take i cells @ drop i cells"
    by (simp only: append_take_drop_id)
  ultimately have "cells = take i cells @ replicate n True @ drop n (drop i cells)"
    using mid by simp
  then show "has_run cells n" unfolding has_run_def by blast
qed

lemma has_run_row_cells:
  "has_run (row_cells tensor width y) n
     \<longleftrightarrow> (\<exists>x. x + n \<le> nat width \<and> (\<forall>i < n. active tensor width (x + i) y))"
  unfolding has_run_nth row_cells_def by (auto simp: nth_append)

lemma has_run_col_cells:
  "has_run (col_cells tensor width height x) n
     \<longleftrightarrow> (\<exists>y. y + n \<le> nat height \<and> (\<forall>i < n. active tensor width x (y + i)))"
  unfolding has_run_nth col_cells_def by (auto simp: nth_append)

lemma bounded_start:
  "(\<exists>x \<in> {0..w::nat}. x + n \<le> w \<and> (\<forall>i \<in> {0..<n}. Q x i))
     \<longleftrightarrow> (\<exists>x. x + n \<le> w \<and> (\<forall>i < n. Q x i))"
proof
  assume "\<exists>x \<in> {0..w}. x + n \<le> w \<and> (\<forall>i \<in> {0..<n}. Q x i)"
  then show "\<exists>x. x + n \<le> w \<and> (\<forall>i < n. Q x i)" by auto
next
  assume "\<exists>x. x + n \<le> w \<and> (\<forall>i < n. Q x i)"
  then obtain x where x: "x + n \<le> w" "\<forall>i < n. Q x i" by blast
  then have "x \<in> {0..w}" by simp
  with x show "\<exists>x \<in> {0..w}. x + n \<le> w \<and> (\<forall>i \<in> {0..<n}. Q x i)" by auto
qed

lemma horizontal_run_rows:
  "horizontal_run tensor width height n
     \<longleftrightarrow> (\<exists>y < nat height. has_run (row_cells tensor width y) n)"
proof -
  have "horizontal_run tensor width height n \<longleftrightarrow>
      (\<exists>y \<in> {0..<nat height}. \<exists>x. x + n \<le> nat width \<and> (\<forall>i < n. active tensor width (x + i) y))"
    unfolding horizontal_run_def by (simp only: bounded_start)
  also have "\<dots> \<longleftrightarrow> (\<exists>y \<in> {0..<nat height}. has_run (row_cells tensor width y) n)"
    by (simp only: has_run_row_cells)
  also have "\<dots> \<longleftrightarrow> (\<exists>y < nat height. has_run (row_cells tensor width y) n)"
    by (simp add: Bex_def)
  finally show ?thesis .
qed

lemma vertical_run_cols:
  "vertical_run tensor width height n
     \<longleftrightarrow> (\<exists>x < nat width. has_run (col_cells tensor width height x) n)"
proof -
  have "vertical_run tensor width height n \<longleftrightarrow>
      (\<exists>x \<in> {0..<nat width}. \<exists>y. y + n \<le> nat height \<and> (\<forall>i < n. active tensor width x (y + i)))"
    unfolding vertical_run_def by (simp only: bounded_start)
  also have "\<dots> \<longleftrightarrow> (\<exists>x \<in> {0..<nat width}. has_run (col_cells tensor width height x) n)"
    by (simp only: has_run_col_cells)
  also have "\<dots> \<longleftrightarrow> (\<exists>x < nat width. has_run (col_cells tensor width height x) n)"
    by (simp add: Bex_def)
  finally show ?thesis .
qed

lemma best_run_foldl:
  "foldl (\<lambda>best cells. let maxLineLength = max_run cells in
                          if maxLineLength > best then maxLineLength else best) b lines
     = Max (insert b (max_run ` set lines))"
proof (induction lines arbitrary: b)
  case Nil
  show ?case by simp
next
  case (Cons c cs)
  have "Max (insert (max b (max_run c)) (max_run ` set cs))
      = Max (insert b (insert (max_run c) (max_run ` set cs)))"
    by (cases "cs = []") (simp_all add: max.assoc)
  moreover have "(if b < max_run c then max_run c else b) = max b (max_run c)"
    by (simp add: max_def)
  ultimately show ?case using Cons.IH [of "max b (max_run c)"] by (simp add: Let_def)
qed

lemma best_run_props:
  "0 \<le> best_run lines"
  "cells \<in> set lines \<Longrightarrow> max_run cells \<le> best_run lines"
  "best_run lines = 0 \<or> (\<exists>cells \<in> set lines. best_run lines = max_run cells)"
proof -
  have e: "best_run lines = Max (insert 0 (max_run ` set lines))"
    unfolding best_run_def by (rule best_run_foldl)
  show "0 \<le> best_run lines" unfolding e by simp
  show "cells \<in> set lines \<Longrightarrow> max_run cells \<le> best_run lines" unfolding e by simp
  have "Max (insert 0 (max_run ` set lines)) \<in> insert 0 (max_run ` set lines)"
    by (rule Max_in) simp_all
  then show "best_run lines = 0 \<or> (\<exists>cells \<in> set lines. best_run lines = max_run cells)"
    unfolding e by auto
qed

lemma has_run_length: "has_run cells n \<Longrightarrow> n \<le> length cells"
  unfolding has_run_def by auto

lemma longest_horizontal_run_code:
  "longest_horizontal_run tensor width height
     = nat (best_run (map (row_cells tensor width) [0..<nat height]))"
proof -
  let ?rows = "map (row_cells tensor width) [0..<nat height]"
  let ?S = "insert 0 {n \<in> {0..nat width}. horizontal_run tensor width height n}"
  have fin: "finite ?S" by simp
  have ub: "n \<le> nat (best_run ?rows)" if "n \<in> ?S" for n
  proof (cases "n = 0")
    case True then show ?thesis by simp
  next
    case False
    with that obtain y where y: "y < nat height" "has_run (row_cells tensor width y) n"
      by (auto simp: horizontal_run_rows)
    from max_run_props(3) [OF y(2)] best_run_props(2) [of "row_cells tensor width y" ?rows] y(1)
    show ?thesis by auto
  qed
  have mem: "nat (best_run ?rows) \<in> ?S"
  proof -
    from best_run_props(3) [of ?rows] show ?thesis
    proof
      assume "best_run ?rows = 0" then show ?thesis by simp
    next
      assume "\<exists>cells \<in> set ?rows. best_run ?rows = max_run cells"
      then obtain y where y: "y < nat height" "best_run ?rows = max_run (row_cells tensor width y)"
        by auto
      from max_run_props(2) [of "row_cells tensor width y"] y(2)
      have r: "has_run (row_cells tensor width y) (nat (best_run ?rows))" by simp
      from has_run_length [OF r] have "nat (best_run ?rows) \<le> nat width"
        by (simp add: row_cells_def)
      with r y(1) show ?thesis by (auto simp: horizontal_run_rows)
    qed
  qed
  show ?thesis unfolding longest_horizontal_run_def
    by (rule Max_eqI [OF fin ub mem])
qed

lemma longest_vertical_run_code:
  "longest_vertical_run tensor width height
     = nat (best_run (map (col_cells tensor width height) [0..<nat width]))"
proof -
  let ?cols = "map (col_cells tensor width height) [0..<nat width]"
  let ?S = "insert 0 {n \<in> {0..nat height}. vertical_run tensor width height n}"
  have fin: "finite ?S" by simp
  have ub: "n \<le> nat (best_run ?cols)" if "n \<in> ?S" for n
  proof (cases "n = 0")
    case True then show ?thesis by simp
  next
    case False
    with that obtain x where x: "x < nat width" "has_run (col_cells tensor width height x) n"
      by (auto simp: vertical_run_cols)
    from max_run_props(3) [OF x(2)] best_run_props(2) [of "col_cells tensor width height x" ?cols] x(1)
    show ?thesis by auto
  qed
  have mem: "nat (best_run ?cols) \<in> ?S"
  proof -
    from best_run_props(3) [of ?cols] show ?thesis
    proof
      assume "best_run ?cols = 0" then show ?thesis by simp
    next
      assume "\<exists>cells \<in> set ?cols. best_run ?cols = max_run cells"
      then obtain x where x: "x < nat width"
        "best_run ?cols = max_run (col_cells tensor width height x)"
        by auto
      from max_run_props(2) [of "col_cells tensor width height x"] x(2)
      have r: "has_run (col_cells tensor width height x) (nat (best_run ?cols))" by simp
      from has_run_length [OF r] have "nat (best_run ?cols) \<le> nat height"
        by (simp add: col_cells_def)
      with r x(1) show ?thesis by (auto simp: vertical_run_cols)
    qed
  qed
  show ?thesis unfolding longest_vertical_run_def
    by (rule Max_eqI [OF fin ub mem])
qed

lemma third_exceeded:
  fixes b w :: int
  assumes "0 \<le> w" and "0 \<le> b"
  shows "b > w sdiv 3 \<longleftrightarrow> real (nat b) > real_of_int w / 3"
proof -
  from assms(1) have s: "w sdiv 3 = w div 3" by (simp add: signed_divide_int_def sgn_if)
  have "b > w div 3 \<longleftrightarrow> 3 * b > w" by presburger
  also have "\<dots> \<longleftrightarrow> real_of_int (3 * b) > real_of_int w" by (simp only: of_int_less_iff)
  also have "\<dots> \<longleftrightarrow> real (nat b) > real_of_int w / 3" using assms(2) by auto
  finally show ?thesis unfolding s .
qed

lemma reads_in_range_grid:
  assumes "0 \<le> width" and "0 \<le> height" and "length tensor = nat width * nat height"
  shows "reads_in_range tensor width height"
  unfolding reads_in_range_def
proof (intro ballI)
  fix y x assume "y \<in> set [0..<nat height]" "x \<in> set [0..<nat width]"
  then have yx: "y < nat height" "x < nat width" by simp_all
  then have "y * nat width + x < (y + 1) * nat width" by simp
  also have "\<dots> \<le> nat height * nat width" using yx by (intro mult_le_mono1) simp
  finally show "y * nat width + x < length tensor" using assms(3) by (simp add: mult.commute)
qed

lemma detectCross_spec:
  assumes "0 \<le> width" and "0 \<le> height" and "length tensor = nat width * nat height"
  shows "detectCross r tensor width height = Inr (spec_has_cross tensor width height)"
proof -
  let ?bh = "best_run (map (row_cells tensor width) [0..<nat height])"
  let ?bv = "best_run (map (col_cells tensor width height) [0..<nat width])"
  have h: "?bh > width sdiv 3 \<longleftrightarrow>
      real (longest_horizontal_run tensor width height) > real_of_int width / 3"
    unfolding longest_horizontal_run_code
    by (rule third_exceeded [OF assms(1) best_run_props(1)])
  have v: "?bv > height sdiv 3 \<longleftrightarrow>
      real (longest_vertical_run tensor width height) > real_of_int height / 3"
    unfolding longest_vertical_run_code
    by (rule third_exceeded [OF assms(2) best_run_props(1)])
  show ?thesis
    unfolding detectCross_def spec_has_cross_def Let_def
    using reads_in_range_grid [OF assms] h v by simp
qed

text \<open>
  C5. On a grid of \<open>width * height\<close> cells, \<open>detectCross\<close>, and with it the
  \<open>has_cross\<close> entry of the feature map, is 1 when the longest horizontal run of
  active cells exceeds \<open>width/3\<close> and the longest vertical run exceeds \<open>height/3\<close>,
  and 0 otherwise.
\<close>

theorem has_cross_is_the_long_run_test:
  assumes "0 \<le> width" and "0 \<le> height" and "length tensor = nat width * nat height"
  shows "detectCross r tensor width height = Inr (spec_has_cross tensor width height)
       \<and> (\<forall>fs. analyzeTensorFeatures r tensor width height = Inr fs
              \<longrightarrow> feat fs ''has_cross'' = Fin (spec_has_cross tensor width height))"
proof -
  have c: "detectCross r tensor width height = Inr (spec_has_cross tensor width height)"
    by (rule detectCross_spec [OF assms])
  have "feat fs ''has_cross'' = Fin (spec_has_cross tensor width height)"
    if "analyzeTensorFeatures r tensor width height = Inr fs" for fs
    using that unfolding analyzeTensorFeatures_def Let_def c
    by (auto simp: feat_def split: sum.splits if_splits)
  with c show ?thesis by blast
qed

theorem has_cross_is_the_long_run_test_witness:
  "(0::int) \<le> 3 \<and> length [0, 1, 0, 1, 1, 1, 0, 1, 0 :: real] = nat 3 * nat 3
   \<and> detectCross sample_recognizer [0, 1, 0, 1, 1, 1, 0, 1, 0] 3 3 = Inr 1
   \<and> spec_has_cross [0, 1, 0, 1, 1, 1, 0, 1, 0] 3 3 = 1
   \<and> detectCross sample_recognizer [0, 1, 0, 1, 0, 1, 0, 1, 0] 3 3 = Inr 0
   \<and> spec_has_cross [0, 1, 0, 1, 0, 1, 0, 1, 0] 3 3 = 0"
proof -
  have d: "detectCross sample_recognizer [0, 1, 0, 1, 1, 1, 0, 1, 0] 3 3 = Inr 1"
     "detectCross sample_recognizer [0, 1, 0, 1, 0, 1, 0, 1, 0] 3 3 = Inr 0"
    by code_simp+
  show ?thesis
    using has_cross_is_the_long_run_test [of 3 3 "[0, 1, 0, 1, 1, 1, 0, 1, 0]" sample_recognizer]
      has_cross_is_the_long_run_test [of 3 3 "[0, 1, 0, 1, 0, 1, 0, 1, 0]" sample_recognizer] d
    by simp
qed

section \<open>Classification\<close>

text \<open>
  C7. Both recognizers answer an empty stroke list with the empty candidate list
  and no error, whatever the raster size and \<open>topN\<close>.
\<close>

theorem empty_strokes_give_empty_list: "ONNX_Recognize r [] width height topN = Inr []
   \<and> Simple_Recognize s [] width height topN = Inr []"
  by (simp add: ONNX_Recognize_def Simple_Recognize_def)

theorem empty_strokes_give_empty_list_witness:
  "ONNX_Recognize sample_recognizer [] 300 300 5 = Inr []
   \<and> Simple_Recognize () [] 300 300 5 = Inr []"
  using empty_strokes_give_empty_list [of sample_recognizer 300 300 5 "()"] by simp




lemma gen_limit:
  "generateCandidatesFromFeatures r fs n topN = Inr cs \<Longrightarrow> 0 < topN \<Longrightarrow>
     cs = take (nat topN) (generated_candidates fs n) \<and> int (length cs) \<le> topN"
  by (auto simp: generateCandidatesFromFeatures_def Let_def split: if_splits)

section \<open>A short horizontal stroke on a large raster\<close>

lemma active_to_tensor:
  assumes "x < nat width" and "y < nat height"
    and "active (to_tensor img width height) width x y"
  shows "GrayAt img (int x) (int y) \<noteq> 0"
proof
  assume "GrayAt img (int x) (int y) = 0"
  with nth_to_tensor [OF assms(1,2), of img] assms(3) show False
    by (simp add: active_def)
qed

lemma active_within_to_tensor:
  assumes "lit_within img (int x0) (int x1) (int y0) (int y1)"
  shows "active_within (to_tensor img width height) width height x0 x1 y0 y1"
  unfolding active_within_def
proof (intro allI impI)
  fix x y assume "x < nat width" "y < nat height" "active (to_tensor img width height) width x y"
  then have "GrayAt img (int x) (int y) \<noteq> 0" by (rule active_to_tensor)
  with assms show "x0 \<le> x \<and> x \<le> x1 \<and> y0 \<le> y \<and> y \<le> y1"
    unfolding lit_within_def by fastforce
qed

lemma row_run_bound:
  assumes "active_within tensor width height x0 x1 y0 y1" and "y < nat height"
  shows "max_run (row_cells tensor width y) \<le> int (x1 + 1 - x0)"
proof -
  let ?n = "nat (max_run (row_cells tensor width y))"
  from max_run_props(2) [of "row_cells tensor width y"]
  obtain x where x: "x + ?n \<le> nat width" "\<forall>i < ?n. active tensor width (x + i) y"
    unfolding has_run_row_cells by blast
  show ?thesis
  proof (cases "?n = 0")
    case True
    then show ?thesis by simp
  next
    case False
    then have n: "0 < ?n" "?n - 1 < ?n" by simp_all
    from x(2) [rule_format, OF n(1)] x(2) [rule_format, OF n(2)]
    have a: "active tensor width (x + 0) y" "active tensor width (x + (?n - 1)) y" .
    from x(1) n have l: "x + 0 < nat width" "x + (?n - 1) < nat width" by linarith+
    from assms a l have "x0 \<le> x + 0" "x + (?n - 1) \<le> x1"
      unfolding active_within_def by blast+
    with n have "?n \<le> x1 + 1 - x0" by linarith
    then show ?thesis by linarith
  qed
qed

lemma col_run_bound:
  assumes "active_within tensor width height x0 x1 y0 y1" and "x < nat width"
  shows "max_run (col_cells tensor width height x) \<le> int (y1 + 1 - y0)"
proof -
  let ?n = "nat (max_run (col_cells tensor width height x))"
  from max_run_props(2) [of "col_cells tensor width height x"]
  obtain y where y: "y + ?n \<le> nat height" "\<forall>i < ?n. active tensor width x (y + i)"
    unfolding has_run_col_cells by blast
  show ?thesis
  proof (cases "?n = 0")
    case True
    then show ?thesis by simp
  next
    case False
    then have n: "0 < ?n" "?n - 1 < ?n" by simp_all
    from y(2) [rule_format, OF n(1)] y(2) [rule_format, OF n(2)]
    have a: "active tensor width x (y + 0)" "active tensor width x (y + (?n - 1))" .
    from y(1) n have l: "y + 0 < nat height" "y + (?n - 1) < nat height" by linarith+
    from assms a l have "y0 \<le> y + 0" "y + (?n - 1) \<le> y1"
      unfolding active_within_def by blast+
    with n have "?n \<le> y1 + 1 - y0" by linarith
    then show ?thesis by linarith
  qed
qed

lemma group_step_False: "group_step (lines, inLine) False = (lines, False)"
  by (simp add: group_step_def)

lemma count_groups_none: "\<forall>b \<in> set bs. \<not> b \<Longrightarrow> count_groups bs = 0"
proof -
  assume a: "\<forall>b \<in> set bs. \<not> b"
  have "fst (foldl group_step s bs) = fst s" for s
    using a by (induction bs arbitrary: s) (auto simp: group_step_def split: prod.splits)
  then show ?thesis by (simp add: count_groups_def)
qed

lemma no_horizontal_lines:
  assumes "active_within tensor width height x0 x1 y0 y1"
    and "0 \<le> height \<and> height \<le> maxAlloc" and "reads_in_range tensor width height"
    and "int (x1 + 1 - x0) < width sdiv 10"
  shows "detectHorizontalLines r tensor width height = Inr 0"
proof -
  have "\<forall>b \<in> set (map (\<lambda>y. max_run (row_cells tensor width y) \<ge> width sdiv 10) [0..<nat height]). \<not> b"
    using row_run_bound [OF assms(1)] assms(4) by fastforce
  then show ?thesis
    using assms(2,3)
    by (simp add: detectHorizontalLines_def makeslice_panics_def Let_def count_groups_none)
qed

lemma no_vertical_lines:
  assumes "active_within tensor width height x0 x1 y0 y1"
    and "0 \<le> width \<and> width \<le> maxAlloc" and "reads_in_range tensor width height"
    and "int (y1 + 1 - y0) < height sdiv 10"
  shows "detectVerticalLines r tensor width height = Inr 0"
proof -
  have "\<forall>b \<in> set (map (\<lambda>x. max_run (col_cells tensor width height x) \<ge> height sdiv 10) [0..<nat width]). \<not> b"
    using col_run_bound [OF assms(1)] assms(4) by fastforce
  then show ?thesis
    using assms(2,3)
    by (simp add: detectVerticalLines_def makeslice_panics_def Let_def count_groups_none)
qed

lemma foldl_count:
  "foldl (\<lambda>a k. if P k then a + 1 else a) (a0::real) ks = a0 + real (length (filter P ks))"
  by (induction ks arbitrary: a0) auto

lemma count_active_filter:
  "count_active tensor width height
     = real (length (filter (\<lambda>k. case k of (y, x) \<Rightarrow> active tensor width x y)
          (List.product [0..<nat height] [0..<nat width])))"
proof -
  have "(\<lambda>activePixels (y, x). if active tensor width x y then activePixels + 1 else activePixels)
      = (\<lambda>a k. if (case k of (y, x) \<Rightarrow> active tensor width x y) then a + 1 else (a::real))"
    by (intro ext) (simp split: prod.split)
  then show ?thesis unfolding count_active_def by (simp add: foldl_count)
qed

lemma count_active_bound:
  assumes "active_within tensor width height x0 x1 y0 y1"
  shows "count_active tensor width height \<le> real ((y1 + 1 - y0) * (x1 + 1 - x0))"
proof -
  let ?ks = "List.product [0..<nat height] [0..<nat width]"
  let ?P = "\<lambda>k. case k of (y, x) \<Rightarrow> active tensor width x y"
  have d: "distinct ?ks" by (simp add: distinct_product)
  have "length (filter ?P ?ks) = card {k \<in> set ?ks. ?P k}"
    using d by (simp add: distinct_length_filter Int_def conj_commute)
  also have "\<dots> \<le> card ({y0..y1} \<times> {x0..x1})"
  proof (rule card_mono)
    show "finite ({y0..y1} \<times> {x0..x1})" by simp
    show "{k \<in> set ?ks. ?P k} \<subseteq> {y0..y1} \<times> {x0..x1}"
      using assms unfolding active_within_def by auto
  qed
  also have "\<dots> = (y1 + 1 - y0) * (x1 + 1 - x0)" by (simp add: card_cartesian_product)
  finally have "length (filter ?P ?ks) \<le> (y1 + 1 - y0) * (x1 + 1 - x0)" .
  then show ?thesis unfolding count_active_filter by (simp only: of_nat_le_iff)
qed

lemma count_active_nonneg: "0 \<le> count_active tensor width height"
  unfolding count_active_filter by simp

lemma features_without_lines:
  assumes "reads_in_range tensor width height"
    and "detectHorizontalLines r tensor width height = Inr 0"
    and "detectVerticalLines r tensor width height = Inr 0"
    and "width * height \<noteq> 0"
  shows "\<exists>fs. analyzeTensorFeatures r tensor width height = Inr fs
           \<and> fs ''has_single_horizontal'' = Some (Fin 0)
           \<and> fs ''has_single_vertical'' = Some (Fin 0)
           \<and> fs ''horizontal_lines'' = Some (Fin 0)
           \<and> fs ''vertical_lines'' = Some (Fin 0)
           \<and> fs ''density'' = Some (Fin (count_active tensor width height / real_of_int (width * height)))"
  using assms
  by (simp add: analyzeTensorFeatures_def detectCross_def detectThreeHorizontal_def
        detectTwoHorizontal_def detectSingleHorizontal_def detectSingleVertical_def Let_def fdiv_def)

lemma dot_fallback:
  assumes "fs ''has_single_horizontal'' = Some (Fin 0)"
    and "fs ''has_single_vertical'' = Some (Fin 0)"
    and "fs ''horizontal_lines'' = Some (Fin 0)"
    and "fs ''vertical_lines'' = Some (Fin 0)"
    and "fs ''density'' = Some (Fin d)" and "d < 0.01"
  shows "generated_candidates fs 1
           = [\<lparr>Text = U4E36, Score = 0.8\<rparr>, \<lparr>Text = U3002, Score = 0.6\<rparr>]"
  using assms by (simp add: generated_candidates_def feat_def Let_def)

lemma limit_two:
  assumes "generated_candidates fs n = [a, b]" and "1 \<le> topN"
  shows "generateCandidatesFromFeatures r fs n topN = Inr (take (nat topN) [a, b])"
proof (cases "topN = 1")
  case True
  with assms show ?thesis by (simp add: generateCandidatesFromFeatures_def)
next
  case False
  with assms(2) have "2 \<le> topN" by simp
  then have "take (nat topN) [a, b] = [a, b]" by simp
  with assms \<open>2 \<le> topN\<close> show ?thesis by (simp add: generateCandidatesFromFeatures_def)
qed

lemma hline_recognized:
  assumes "1 \<le> topN"
  shows "ONNX_Recognize r [sample_hline] 300 300 topN
           = Inr (take (nat topN) [\<lparr>Text = U4E36, Score = 0.8\<rparr>, \<lparr>Text = U3002, Score = 0.6\<rparr>])"
proof -
  let ?img = "draw_stroke 300 300 sample_hline (blank_Gray 300 300)"
  let ?t = "to_tensor ?img 300 300"
  have t: "strokesToTensor r [sample_hline] 300 300 = Inr ?t"
    using strokesToTensor_ok [of 300 300 r "[sample_hline]"] by (simp add: maxAlloc_def)
  have "lit_within (blank_Gray 300 300) (10 - 1) (20 + 1) (10 - 1) (10 + 1)"
    by (simp add: lit_within_def GrayAt_blank)
  then have "lit_within ?img (10 - 1) (20 + 1) (10 - 1) (10 + 1)"
    by (rule lit_within_draw_stroke) (simp add: sample_hline_def)
  then have "lit_within ?img (int 9) (int 21) (int 9) (int 11)" by simp
  then have aw: "active_within ?t 300 300 9 21 9 11" by (rule active_within_to_tensor)
  have rd: "reads_in_range ?t 300 300"
    by (rule reads_in_range_grid) (simp_all add: length_to_tensor)
  have h: "detectHorizontalLines r ?t 300 300 = Inr 0"
    by (rule no_horizontal_lines [OF aw _ rd]) (simp_all add: signed_divide_int_def maxAlloc_def)
  have v: "detectVerticalLines r ?t 300 300 = Inr 0"
    by (rule no_vertical_lines [OF aw _ rd]) (simp_all add: signed_divide_int_def maxAlloc_def)
  from features_without_lines [OF rd h v] obtain fs where
    fs: "analyzeTensorFeatures r ?t 300 300 = Inr fs"
      "fs ''has_single_horizontal'' = Some (Fin 0)"
      "fs ''has_single_vertical'' = Some (Fin 0)"
      "fs ''horizontal_lines'' = Some (Fin 0)"
      "fs ''vertical_lines'' = Some (Fin 0)"
      "fs ''density'' = Some (Fin (count_active ?t 300 300 / real_of_int (300 * 300)))"
    by auto
  from count_active_bound [OF aw] have "count_active ?t 300 300 \<le> 39" by simp
  then have d: "count_active ?t 300 300 / real_of_int (300 * 300) < 0.01" by simp
  from dot_fallback [OF fs(2-6) d] have
    g: "generated_candidates fs 1 = [\<lparr>Text = U4E36, Score = 0.8\<rparr>, \<lparr>Text = U3002, Score = 0.6\<rparr>]" .
  from limit_two [OF g assms, of r] t fs(1) assms show ?thesis
    by (simp add: ONNX_Recognize_def)
qed

lemma simple_recognizer_reads_hline_as_line:
  assumes "1 \<le> topN"
  shows "Simple_Recognize s [sample_hline] 300 300 topN
     = Inr (take (nat topN) [\<lparr>Text = U4E00, Score = 0.9\<rparr>, \<lparr>Text = U30FC, Score = 0.7\<rparr>])"
proof -
  have d: "analyzeStrokeDirection sample_hline = ''horizontal''"
    by (simp add: analyzeStrokeDirection_def sample_hline_def atan2_def Let_def)
  have sh: "analyzeStrokeShape sample_hline = ''straight''"
    by (simp add: analyzeStrokeShape_def sample_hline_def)
  have n: "length (Stroke.Points sample_hline) = 2" by (simp add: sample_hline_def)
  show ?thesis
  proof (cases "topN = 1")
    case True
    then show ?thesis by (simp add: Simple_Recognize_def simple_candidates_def d sh n Let_def)
  next
    case False
    with assms have "2 \<le> topN" by simp
    then have "take (nat topN) [\<lparr>Text = U4E00, Score = 0.9\<rparr>, \<lparr>Text = U30FC, Score = 0.7\<rparr>]
        = [\<lparr>Text = U4E00, Score = 0.9\<rparr>, \<lparr>Text = U30FC, Score = 0.7\<rparr>]" by simp
    with \<open>2 \<le> topN\<close> show ?thesis by (simp add: Simple_Recognize_def simple_candidates_def d sh n Let_def)
  qed
qed

section \<open>The result cap\<close>

text \<open>
  C6. In both recognizers a \<open>topN\<close> of 0 or less acts as 10; the returned list
  has at most the effective \<open>topN\<close> entries; and it is the first entries of the
  generated list, in the order of generation.
\<close>

theorem topN_caps_the_generated_list:
  "ONNX_Recognize r strokes width height topN
     = ONNX_Recognize r strokes width height (if topN \<le> 0 then 10 else topN)
   \<and> (\<forall>cs. ONNX_Recognize r strokes width height topN = Inr cs \<longrightarrow>
        int (length cs) \<le> (if topN \<le> 0 then 10 else topN)
        \<and> (strokes = [] \<or> (\<exists>tensor fs. strokesToTensor r strokes width height = Inr tensor
              \<and> analyzeTensorFeatures r tensor width height = Inr fs
              \<and> cs = take (nat (if topN \<le> 0 then 10 else topN))
                         (generated_candidates fs (int (length strokes))))))
   \<and> Simple_Recognize s strokes width height topN
     = Simple_Recognize s strokes width height (if topN \<le> 0 then 10 else topN)
   \<and> (\<forall>cs. Simple_Recognize s strokes width height topN = Inr cs \<longrightarrow>
        int (length cs) \<le> (if topN \<le> 0 then 10 else topN)
        \<and> (strokes = [] \<or> cs = take (nat (if topN \<le> 0 then 10 else topN))
                                   (simple_candidates strokes)))"
proof -
  let ?n = "if topN \<le> 0 then 10 else topN"
  have pos: "0 < ?n" by simp
  have a: "ONNX_Recognize r strokes width height topN = ONNX_Recognize r strokes width height ?n"
    by (simp add: ONNX_Recognize_def)
  have b: "int (length cs) \<le> ?n \<and> (strokes = [] \<or> (\<exists>tensor fs. strokesToTensor r strokes width height = Inr tensor
              \<and> analyzeTensorFeatures r tensor width height = Inr fs
              \<and> cs = take (nat ?n) (generated_candidates fs (int (length strokes)))))"
    if h: "ONNX_Recognize r strokes width height topN = Inr cs" for cs
  proof (cases "strokes = []")
    case True
    with h show ?thesis by (simp add: ONNX_Recognize_def)
  next
    case False
    from h False obtain tensor fs where
      t: "strokesToTensor r strokes width height = Inr tensor"
      and f: "analyzeTensorFeatures r tensor width height = Inr fs"
      and g: "generateCandidatesFromFeatures r fs (int (length strokes)) ?n = Inr cs"
      by (auto simp: ONNX_Recognize_def Let_def split: sum.splits if_splits)
    from gen_limit [OF g pos] t f show ?thesis by blast
  qed
  have c: "Simple_Recognize s strokes width height topN
      = Simple_Recognize s strokes width height ?n"
    by (simp add: Simple_Recognize_def)
  have d: "int (length cs) \<le> ?n \<and> (strokes = [] \<or> cs = take (nat ?n) (simple_candidates strokes))"
    if h: "Simple_Recognize s strokes width height topN = Inr cs" for cs
  proof (cases "strokes = []")
    case True
    with h show ?thesis by (simp add: Simple_Recognize_def)
  next
    case False
    show ?thesis
    proof (cases "int (length (simple_candidates strokes)) > ?n")
      case True
      with h False pos have "cs = take (nat ?n) (simple_candidates strokes)"
        by (simp add: Simple_Recognize_def Let_def)
      with pos show ?thesis by auto
    next
      case n: False
      with h False have "cs = simple_candidates strokes"
        by (simp add: Simple_Recognize_def Let_def)
      with n show ?thesis by simp
    qed
  qed
  from a b c d show ?thesis by blast
qed

theorem topN_caps_the_generated_list_witness:
  "ONNX_Recognize sample_recognizer [sample_hline] 300 300 1 = Inr [\<lparr>Text = U4E36, Score = 0.8\<rparr>]
   \<and> int (length [\<lparr>Text = U4E36, Score = 0.8\<rparr>]) \<le> 1
   \<and> ONNX_Recognize sample_recognizer [sample_hline] 300 300 (- 3)
       = ONNX_Recognize sample_recognizer [sample_hline] 300 300 10"
  using topN_caps_the_generated_list [of sample_recognizer "[sample_hline]" 300 300 1]
    topN_caps_the_generated_list [of sample_recognizer "[sample_hline]" 300 300 "- 3"]
    hline_recognized [of 1 sample_recognizer]
  by simp

text \<open>
  The limit step does not sort: when the cross rule and the two-lines rule both
  fire, a cap of 3 keeps the plus sign at 0.8 ahead of the two at 0.9.
\<close>

lemma limit_keeps_generation_order:
  "generateCandidatesFromFeatures sample_recognizer
     [''has_cross'' \<mapsto> Fin 1, ''has_two_horizontal'' \<mapsto> Fin 1] 2 3
     = Inr [\<lparr>Text = U5341, Score = 0.95\<rparr>, \<lparr>Text = UFF0B, Score = 0.8\<rparr>,
            \<lparr>Text = U4E8C, Score = 0.9\<rparr>]"
  by (simp add: generateCandidatesFromFeatures_def generated_candidates_def feat_def Let_def)

section \<open>A longer horizontal stroke\<close>

lemma foldl_establish:
  assumes "P a" and "\<And>a j. P a \<Longrightarrow> P (f a j)"
    and "k \<in> set ks" and "\<And>a. P a \<Longrightarrow> Q (f a k)" and "\<And>a j. P a \<Longrightarrow> Q a \<Longrightarrow> Q (f a j)"
  shows "Q (foldl f a ks)"
  using assms(1,3)
proof (induction ks arbitrary: a)
  case Nil
  then show ?case by simp
next
  case (Cons j ks)
  show ?case
  proof (cases "j = k")
    case True
    have "P (foldl f (f a k) ks) \<and> Q (foldl f (f a k) ks)"
      by (rule foldl_invariant [where P = "\<lambda>a. P a \<and> Q a"])
         (auto intro: assms(2,4,5) Cons.prems)
    with True show ?thesis by simp
  next
    case False
    with Cons.prems have "k \<in> set ks" by simp
    from Cons.IH [OF assms(2) [OF Cons.prems(1)] this] show ?thesis by simp
  qed
qed

lemma same_rect_refl: "same_rect a a"
  by (simp add: same_rect_def)

lemma same_rect_SetGray: "same_rect (SetGray img x y c) b = same_rect img b"
  by (simp add: same_rect_def SetGray_def)

lemma same_rect_stamp: "same_rect img b \<Longrightarrow> same_rect (stamp width height x y img) b"
  unfolding stamp_def
  by (rule foldl_invariant [where P = "\<lambda>im. same_rect im b"])
     (auto simp: Let_def same_rect_SetGray)

lemma same_rect_In: "same_rect a b \<Longrightarrow> In x y a = In x y b"
  by (simp add: same_rect_def In_def)

lemma lit_SetGray: "lit img x y \<Longrightarrow> lit (SetGray img a b 255) x y"
  by (simp add: lit_def GrayAt_SetGray)

lemma lit_stamp_keeps: "lit img x y \<Longrightarrow> lit (stamp width height cx cy img) x y"
  unfolding stamp_def
  by (rule foldl_invariant [where P = "\<lambda>im. lit im x y"]) (auto simp: Let_def lit_SetGray)

lemma lit_stamp_centre:
  assumes "In x y img" and "0 \<le> x" "x < width" "0 \<le> y" "y < height"
  shows "lit (stamp width height x y img) x y"
  unfolding stamp_def
proof (rule foldl_establish [where P = "\<lambda>im. same_rect im img" and k = "(0, 0)"
         and Q = "\<lambda>im. lit im x y"])
  show "same_rect img img" by (rule same_rect_refl)
  show "(0, 0) \<in> set (List.product [- 1, 0, 1] [- 1, 0, 1])" by simp
next
  fix a :: Gray and j :: "int \<times> int"
  assume "same_rect a img"
  then show "same_rect (case j of (dy, dx) \<Rightarrow>
           let nx = x + dx; ny = y + dy in
           if nx \<ge> 0 \<and> nx < width \<and> ny \<ge> 0 \<and> ny < height
           then SetGray a nx ny 255 else a) img"
    by (cases j) (simp add: Let_def same_rect_SetGray)
next
  fix a :: Gray
  assume "same_rect a img"
  with assms(1) have "In x y a" by (simp add: same_rect_In)
  with assms(2-5) show "lit (case (0, 0) of (dy, dx) \<Rightarrow>
           let nx = x + dx; ny = y + dy in
           if nx \<ge> 0 \<and> nx < width \<and> ny \<ge> 0 \<and> ny < height
           then SetGray a nx ny 255 else a) x y"
    by (simp add: lit_def GrayAt_SetGray)
next
  fix a :: Gray and j :: "int \<times> int"
  assume "lit a x y"
  then show "lit (case j of (dy, dx) \<Rightarrow>
           let nx = x + dx; ny = y + dy in
           if nx \<ge> 0 \<and> nx < width \<and> ny \<ge> 0 \<and> ny < height
           then SetGray a nx ny 255 else a) x y"
    by (cases j) (simp add: Let_def lit_SetGray)
qed

lemma centre_on_the_line:
  assumes "1 \<le> j" and "j \<le> 31"
  shows "int_of_float64 (10 + real j / real_of_int 31 * 30) = 9 + int j"
proof -
  let ?v = "10 + real j / real_of_int 31 * 30 :: real"
  have "real_of_int (9 + int j) \<le> ?v" "?v < real_of_int (9 + int j) + 1"
    using assms by simp_all
  then have "\<lfloor>?v\<rfloor> = 9 + int j" by (rule floor_unique)
  moreover have "0 \<le> ?v" by simp
  ultimately show ?thesis by (simp add: int_of_float64_def)
qed

lemma sqrt_900: "sqrt 900 = 30"
  using real_sqrt_abs [of 30] by simp

lemma draw_stroke_two_points:
  "draw_stroke width height \<lparr>Points = [p1, p2]\<rparr> img
     = draw_segment width height p1 p2 (draw_points width height [p1, p2] img)"
  by (simp add: draw_stroke_def)

lemma hline40_row_lit:
  assumes "10 \<le> x" and "x \<le> 40"
  shows "lit (draw_stroke 300 300 sample_hline40 (blank_Gray 300 300)) x 10"
proof -
  let ?p1 = "\<lparr>X = 10, Y = 10\<rparr> :: Point" and ?p2 = "\<lparr>X = 40, Y = 10\<rparr> :: Point"
  let ?img0 = "draw_points 300 300 [?p1, ?p2] (blank_Gray 300 300)"
  let ?f = "\<lambda>im j. stamp 300 300 (int_of_float64 (10 + real j / real_of_int 31 * 30))
                 (int_of_float64 10) im"
  have d: "draw_stroke 300 300 sample_hline40 (blank_Gray 300 300)
      = foldl ?f ?img0 [0..<Suc 31]"
    unfolding sample_hline40_def draw_stroke_two_points
    by (simp add: draw_segment_def Let_def sqrt_900 int_of_float64_def [of 30] del: upt_Suc)
  have r0: "same_rect ?img0 (blank_Gray 300 300)"
    unfolding draw_points_def
    by (rule foldl_invariant [where P = "\<lambda>im. same_rect im (blank_Gray 300 300)"])
       (auto intro: same_rect_refl same_rect_stamp)
  have inr: "In x 10 (blank_Gray 300 300)"
    using assms by (simp add: In_def blank_Gray_def)
  let ?k = "nat (x - 9)"
  have k: "1 \<le> ?k" "?k \<le> 31" using assms by simp_all
  have cx: "int_of_float64 (10 + real ?k / real_of_int 31 * 30) = x"
    using centre_on_the_line [OF k] assms by simp
  have cy: "int_of_float64 10 = 10" by (simp add: int_of_float64_def)
  have "lit (foldl ?f ?img0 [0..<Suc 31]) x 10"
  proof (rule foldl_establish [where P = "\<lambda>im. same_rect im (blank_Gray 300 300)" and k = ?k
         and Q = "\<lambda>im. lit im x 10"])
    show "same_rect ?img0 (blank_Gray 300 300)" by (rule r0)
    show "?k \<in> set [0..<Suc 31]" using k by simp
  next
    fix a j assume "same_rect a (blank_Gray 300 300)"
    then show "same_rect (?f a j) (blank_Gray 300 300)" by (rule same_rect_stamp)
  next
    fix a assume "same_rect a (blank_Gray 300 300)"
    with inr have "In x 10 a" by (simp add: same_rect_In)
    then have "lit (stamp 300 300 x 10 a) x 10"
      using assms by (intro lit_stamp_centre) simp_all
    then show "lit (?f a ?k) x 10" by (simp only: cx cy)
  next
    fix a j assume "lit a x 10"
    then show "lit (?f a j) x 10" by (rule lit_stamp_keeps)
  qed
  then show ?thesis by (simp only: d)
qed

lemma lit_active:
  assumes "lit img (int x) (int y)" and "x < nat width" and "y < nat height"
  shows "active (to_tensor img width height) width x y"
  using nth_to_tensor [OF assms(2,3), of img] assms(1)
  by (simp add: active_def lit_def unat_gray)

lemma group_step_simps:
  "group_step (n, i) False = (n, False)"
  "group_step (n, False) True = (n + 1, True)"
  "group_step (n, True) True = (n, True)"
  by (simp_all add: group_step_def)

lemma count_groups_some:
  assumes "\<exists>b \<in> set bs. b"
  shows "1 \<le> count_groups bs"
proof -
  have "(snd (foldl group_step (0, False) bs) \<longrightarrow> 1 \<le> fst (foldl group_step (0, False) bs))
      \<and> ((\<exists>b \<in> set bs. b) \<longrightarrow> 1 \<le> fst (foldl group_step (0, False) bs))
      \<and> 0 \<le> fst (foldl group_step (0, False) bs)"
  proof (induction bs rule: rev_induct)
    case Nil
    show ?case by simp
  next
    case (snoc b bs)
    obtain n i where s: "foldl group_step (0, False) bs = (n, i)"
      by (cases "foldl group_step (0, False) bs")
    from snoc s have ih: "i \<longrightarrow> 1 \<le> n" "(\<exists>b \<in> set bs. b) \<longrightarrow> 1 \<le> n" "0 \<le> n"
      by simp_all
    have st: "foldl group_step (0, False) (bs @ [b]) = group_step (n, i) b"
      by (simp add: s)
    show ?case
    proof (cases b)
      case True
      with ih show ?thesis unfolding st by (cases i) (simp_all add: group_step_simps)
    next
      case False
      with ih show ?thesis unfolding st by (simp add: group_step_simps)
    qed
  qed
  with assms show ?thesis by (simp add: count_groups_def)
qed

lemma some_horizontal_line:
  assumes "y < nat height" and "width sdiv 10 \<le> max_run (row_cells tensor width y)"
    and "0 \<le> height \<and> height \<le> maxAlloc" and "reads_in_range tensor width height"
  shows "\<exists>hl. detectHorizontalLines r tensor width height = Inr hl \<and> 1 \<le> hl"
proof -
  have "\<exists>b \<in> set (map (\<lambda>y. max_run (row_cells tensor width y) \<ge> width sdiv 10) [0..<nat height]). b"
    using assms(1,2) by auto
  then have "1 \<le> count_groups
      (map (\<lambda>y. max_run (row_cells tensor width y) \<ge> width sdiv 10) [0..<nat height])"
    by (rule count_groups_some)
  with assms(3,4) show ?thesis
    by (simp add: detectHorizontalLines_def makeslice_panics_def Let_def)
qed

lemma features_single_horizontal:
  assumes "reads_in_range tensor width height"
    and "detectHorizontalLines r tensor width height = Inr hl" and "1 \<le> hl"
    and "detectVerticalLines r tensor width height = Inr 0"
    and "width * height \<noteq> 0"
  shows "\<exists>fs. analyzeTensorFeatures r tensor width height = Inr fs
           \<and> fs ''has_single_horizontal'' = Some (Fin 1)
           \<and> fs ''has_single_vertical'' = Some (Fin 0)
           \<and> fs ''density'' = Some (Fin (count_active tensor width height / real_of_int (width * height)))"
  using assms
  by (simp add: analyzeTensorFeatures_def detectCross_def detectThreeHorizontal_def
        detectTwoHorizontal_def detectSingleHorizontal_def detectSingleVertical_def Let_def fdiv_def)

lemma single_horizontal_rule:
  assumes "fs ''has_single_horizontal'' = Some (Fin 1)"
    and "fs ''has_single_vertical'' = Some (Fin 0)"
    and "fs ''density'' = Some (Fin d)" and "d \<le> 0.1"
  shows "generated_candidates fs 1
           = [\<lparr>Text = U4E00, Score = 0.9\<rparr>, \<lparr>Text = U30FC, Score = 0.7\<rparr>]"
  using assms by (simp add: generated_candidates_def feat_def Let_def)

lemma hline40_recognized:
  assumes "1 \<le> topN"
  shows "ONNX_Recognize r [sample_hline40] 300 300 topN
           = Inr (take (nat topN) [\<lparr>Text = U4E00, Score = 0.9\<rparr>, \<lparr>Text = U30FC, Score = 0.7\<rparr>])"
proof -
  let ?img = "draw_stroke 300 300 sample_hline40 (blank_Gray 300 300)"
  let ?t = "to_tensor ?img 300 300"
  have t: "strokesToTensor r [sample_hline40] 300 300 = Inr ?t"
    using strokesToTensor_ok [of 300 300 r "[sample_hline40]"] by (simp add: maxAlloc_def)
  have "lit_within (blank_Gray 300 300) (10 - 1) (40 + 1) (10 - 1) (10 + 1)"
    by (simp add: lit_within_def GrayAt_blank)
  then have "lit_within ?img (10 - 1) (40 + 1) (10 - 1) (10 + 1)"
    by (rule lit_within_draw_stroke) (simp add: sample_hline40_def)
  then have "lit_within ?img (int 9) (int 41) (int 9) (int 11)" by simp
  then have aw: "active_within ?t 300 300 9 41 9 11" by (rule active_within_to_tensor)
  have rd: "reads_in_range ?t 300 300"
    by (rule reads_in_range_grid) (simp_all add: length_to_tensor)
  have "active ?t 300 (10 + i) 10" if "i < 31" for i
  proof -
    have "lit ?img (int (10 + i)) 10" using that by (intro hline40_row_lit) simp_all
    then have "lit ?img (int (10 + i)) (int 10)" by simp
    then show ?thesis using that by (intro lit_active) simp_all
  qed
  then have "has_run (row_cells ?t 300 10) 31"
    unfolding has_run_row_cells by (intro exI [of _ 10]) simp
  from max_run_props(3) [OF this] have "300 sdiv 10 \<le> max_run (row_cells ?t 300 10)"
    by (simp add: signed_divide_int_def)
  from some_horizontal_line [OF _ this _ rd, of r] obtain hl where
    h: "detectHorizontalLines r ?t 300 300 = Inr hl" "1 \<le> hl" by (auto simp: maxAlloc_def)
  have v: "detectVerticalLines r ?t 300 300 = Inr 0"
    by (rule no_vertical_lines [OF aw _ rd]) (simp_all add: signed_divide_int_def maxAlloc_def)
  from features_single_horizontal [OF rd h v] obtain fs where
    fs: "analyzeTensorFeatures r ?t 300 300 = Inr fs"
      "fs ''has_single_horizontal'' = Some (Fin 1)"
      "fs ''has_single_vertical'' = Some (Fin 0)"
      "fs ''density'' = Some (Fin (count_active ?t 300 300 / real_of_int (300 * 300)))"
    by auto
  from count_active_bound [OF aw] have "count_active ?t 300 300 \<le> 99" by simp
  then have d: "count_active ?t 300 300 / real_of_int (300 * 300) \<le> 0.1" by simp
  from single_horizontal_rule [OF fs(2-4) d] have
    g: "generated_candidates fs 1 = [\<lparr>Text = U4E00, Score = 0.9\<rparr>, \<lparr>Text = U30FC, Score = 0.7\<rparr>]" .
  from limit_two [OF g assms, of r] t fs(1) assms show ?thesis
    by (simp add: ONNX_Recognize_def)
qed

text \<open>
  C3, as the code has it. On a 300 x 300 raster and for every \<open>topN\<close> of at least 1,
  the single stroke from \<open>(10, 10)\<close> to \<open>(20, 10)\<close> is answered with the dot
  first, at score 0.8: its run of 13 cells is shorter than the 30 cells
  (\<open>width / 10\<close>) that a line needs, so no line is counted and the rule for a
  nearly empty raster applies. The single stroke from \<open>(10, 10)\<close> to \<open>(40, 10)\<close>,
  whose run reaches 30 cells, is answered with the horizontal line first, at
  score 0.9.
\<close>

theorem short_stroke_dot_long_stroke_line:
  assumes "1 \<le> topN"
  shows "ONNX_Recognize r [sample_hline] 300 300 topN
           = Inr (take (nat topN) [\<lparr>Text = U4E36, Score = 0.8\<rparr>, \<lparr>Text = U3002, Score = 0.6\<rparr>])
       \<and> hd (take (nat topN) [\<lparr>Text = U4E36, Score = 0.8\<rparr>, \<lparr>Text = U3002, Score = 0.6\<rparr>])
           = \<lparr>Text = U4E36, Score = 0.8\<rparr>
       \<and> ONNX_Recognize r [sample_hline40] 300 300 topN
           = Inr (take (nat topN) [\<lparr>Text = U4E00, Score = 0.9\<rparr>, \<lparr>Text = U30FC, Score = 0.7\<rparr>])
       \<and> hd (take (nat topN) [\<lparr>Text = U4E00, Score = 0.9\<rparr>, \<lparr>Text = U30FC, Score = 0.7\<rparr>])
           = \<lparr>Text = U4E00, Score = 0.9\<rparr>"
proof -
  from assms obtain k where "nat topN = Suc k"
    by (cases "nat topN") auto
  then show ?thesis
    using hline_recognized [OF assms, of r] hline40_recognized [OF assms, of r] by simp
qed

theorem short_stroke_dot_long_stroke_line_witness:
  "(1::int) \<le> 5
   \<and> ONNX_Recognize sample_recognizer [sample_hline] 300 300 5
       = Inr [\<lparr>Text = U4E36, Score = 0.8\<rparr>, \<lparr>Text = U3002, Score = 0.6\<rparr>]
   \<and> ONNX_Recognize sample_recognizer [sample_hline40] 300 300 5
       = Inr [\<lparr>Text = U4E00, Score = 0.9\<rparr>, \<lparr>Text = U30FC, Score = 0.7\<rparr>]"
  using short_stroke_dot_long_stroke_line [of 5 sample_recognizer] by simp

text \<open>
  The scenario as the specification words it fails: for the stroke from
  \<open>(10, 10)\<close> to \<open>(20, 10)\<close> the first candidate is not the horizontal line at 0.9.
\<close>

theorem short_stroke_is_not_read_as_line:
  "Stroke.Points sample_hline = [\<lparr>X = 10, Y = 10\<rparr>, \<lparr>X = 20, Y = 10\<rparr>]
   \<and> ONNX_Recognize sample_recognizer [sample_hline] 300 300 5
       = Inr [\<lparr>Text = U4E36, Score = 0.8\<rparr>, \<lparr>Text = U3002, Score = 0.6\<rparr>]
   \<and> hd [\<lparr>Text = U4E36, Score = 0.8\<rparr>, \<lparr>Text = U3002, Score = 0.6\<rparr>]
       \<noteq> \<lparr>Text = U4E00, Score = 0.9\<rparr>"
  using hline_recognized [of 5 sample_recognizer] by (simp add: sample_hline_def)

end
